theory Spec2Isabelle
  imports Main
begin

section \<open>Data model of \<open>async_dns/resolver/query.py\<close>\<close>

text \<open>
  The resolver compares record types only for equality (\<open>types.A\<close>, \<open>types.NS\<close>, ...),
  so they are an enumeration here; \<open>types_other\<close> stands for every other type code.
\<close>

datatype qtype = types_A | types_NS | types_CNAME | types_SOA | types_AAAA | types_other int

definition A_TYPES :: "qtype list" where
  "A_TYPES = [types_A, types_AAAA]"

text \<open>
  A resource record as the resolver reads it: \<open>rec.name\<close>, \<open>rec.qtype\<close>, \<open>rec.data\<close>,
  \<open>rec.ttl\<close>. The data of an SOA record is an object of which the resolver reads only
  \<open>rec.data.mname\<close>; that attribute is the field \<open>rec_mname\<close>, and \<open>rec_data\<close> is the
  string payload of every other record (CNAME target, NS host, address).
\<close>

record DNSRecord =
  rec_name :: string
  rec_qtype :: qtype
  rec_data :: string
  rec_mname :: string
  rec_ttl :: int

text \<open>An entry of the question section, \<open>Record(REQUEST, name, qtype)\<close>.\<close>

record Question =
  q_name :: string
  q_qtype :: qtype

datatype qr_flag = REQUEST | RESPONSE

text \<open>
  \<open>DNSMessage\<close>: the sections \<open>qd\<close>, \<open>an\<close>, \<open>ns\<close>, \<open>ar\<close>, the flags \<open>qr\<close>, \<open>aa\<close>, \<open>ra\<close>
  and the result code \<open>r\<close>.
\<close>

record DNSMessage =
  msg_qr :: qr_flag
  msg_qd :: "Question list"
  msg_an :: "DNSRecord list"
  msg_ns :: "DNSRecord list"
  msg_ar :: "DNSRecord list"
  msg_aa :: int
  msg_ra :: bool
  msg_r :: int

text \<open>
  Exceptions are values. \<open>CancelledError\<close> is \<open>asyncio.CancelledError\<close>, which an
  \<open>await\<close> raises when the task that runs the coroutine is cancelled; it derives from
  \<open>BaseException\<close> and not from \<open>Exception\<close>. Every other constructor is an instance
  of \<open>Exception\<close>.
\<close>

datatype error =
    TimeoutError
  | AssertionError string
  | DNSError int string
  | InvalidNameServer
  | UnboundLocalError string
  | IndexError
  | AttributeError
  | InvalidStateError
  | OtherException string
  | CancelledError

definition is_Exception :: "error \<Rightarrow> bool" where
  "is_Exception e = (case e of CancelledError \<Rightarrow> False | _ \<Rightarrow> True)"

datatype protocol = TCP | UDP

text \<open>
  Everything the module imports and does not define is a parameter: the cache, the
  resolver's entry point, the nameserver sets, the two transports and the message
  parser. Objects that live outside the \<open>Query\<close> (the cache, the nameserver sets, the
  network, the owner of the future who may cancel it) are in a world \<open>'w\<close>, which every
  \<open>await\<close> and every call on a shared object may change. \<open>'ns\<close> is a reference to a
  \<open>NameServers\<close> object, \<open>'a\<close> an address, \<open>'b\<close> the raw bytes of a response.
\<close>

record ('w, 'ns, 'a, 'b) env =
  recursive :: bool
  rootdomains :: "string list"
  resolver_protocol :: protocol
  request_timeout :: int
  new_message :: DNSMessage
  cache_query :: "string \<Rightarrow> qtype list \<Rightarrow> 'w \<Rightarrow> DNSRecord list"
  cache_message :: "DNSMessage option \<Rightarrow> 'w \<Rightarrow> (error + unit) \<times> 'w"
  resolver_query :: "string \<Rightarrow> qtype \<Rightarrow> 'w \<Rightarrow> (error + DNSMessage option) \<times> 'w"
  get_nameservers :: "string \<Rightarrow> 'w \<Rightarrow> 'ns \<times> 'w"
  NameServers :: "string list \<Rightarrow> 'w \<Rightarrow> 'ns \<times> 'w"
  ns_get :: "'ns \<Rightarrow> 'w \<Rightarrow> 'a option \<times> 'w"
  ns_fail :: "'ns \<Rightarrow> 'a \<Rightarrow> 'w \<Rightarrow> 'w"
  tcp_request :: "DNSMessage \<Rightarrow> 'a \<Rightarrow> int \<Rightarrow> 'w \<Rightarrow> (error + 'b) \<times> 'w"
  udp_request :: "DNSMessage \<Rightarrow> 'a \<Rightarrow> int \<Rightarrow> 'w \<Rightarrow> (error + 'b) \<times> 'w"
  parse :: "'b \<Rightarrow> error + DNSMessage"
  future_cancelled :: "'w \<Rightarrow> bool"

text \<open>The state of \<open>self.future\<close> as \<open>Query.query\<close> leaves it.\<close>

datatype future_state = Pending | Result "DNSMessage \<times> bool" | Exception error

record Query =
  fqdn :: string
  query_qtype :: qtype
  from_cache :: bool
  result :: DNSMessage
  future :: future_state

section \<open>\<open>Query.request_once\<close> and \<open>Query.request_remote\<close>\<close>

definition request_once ::
  "('w, 'ns, 'a, 'b) env \<Rightarrow> DNSMessage \<Rightarrow> 'a \<Rightarrow> 'w \<Rightarrow> (error + 'b) \<times> 'w" where
  "request_once env req addr w =
     (if resolver_protocol env = TCP
      then tcp_request env req addr (request_timeout env) w
      else udp_request env req addr (request_timeout env) w)"

text \<open>
  The body of the \<open>try\<close> statement of \<open>request_remote\<close>: the request, the parse, the
  comparison of the question names (\<open>qd[0]\<close> of an empty section raises \<open>IndexError\<close>)
  and the assertion on the result code (the interpreter runs with assertions enabled).
\<close>

definition try_body ::
  "('w, 'ns, 'a, 'b) env \<Rightarrow> DNSMessage \<Rightarrow> 'a \<Rightarrow> 'w \<Rightarrow> (error + DNSMessage) \<times> 'w" where
  "try_body env req addr w =
     (case request_once env req addr w of
        (Inl e, w') \<Rightarrow> (Inl e, w')
      | (Inr data, w') \<Rightarrow>
          (case parse env data of
             Inl e \<Rightarrow> (Inl e, w')
           | Inr inter_res \<Rightarrow>
               (case msg_qd inter_res of
                  [] \<Rightarrow> (Inl IndexError, w')
                | q # _ \<Rightarrow>
                    (case msg_qd req of
                       [] \<Rightarrow> (Inl IndexError, w')
                     | q' # _ \<Rightarrow>
                         if q_name q \<noteq> q_name q'
                         then (Inl (DNSError (- 1) ''Question section mismatch''), w')
                         else if msg_r inter_res = 2
                         then (Inl (AssertionError ''Remote server fail''), w')
                         else (Inr inter_res, w')))))"

text \<open>
  The handlers. \<open>except (asyncio.TimeoutError, AssertionError) as e\<close> logs and calls
  \<open>nameservers.fail(addr)\<close>. \<open>except DNSError:\<close> binds no name and evaluates
  \<open>logger.debug(..., e)\<close>: \<open>e\<close> is a local variable of \<open>request_remote\<close> that is
  unbound there (the first handler unbinds it when it ends), so evaluating the
  argument raises \<open>UnboundLocalError\<close>. Any other exception leaves the function.
  The loop has no bound of its own, hence the fuel; \<open>None\<close> is "still running".
  When the future is cancelled the \<open>while\<close> ends and the function returns \<open>None\<close>,
  which is \<open>Inr None\<close> here.
\<close>

definition is_server_error :: "error \<Rightarrow> bool" where
  "is_server_error e = (case e of TimeoutError \<Rightarrow> True | AssertionError _ \<Rightarrow> True | _ \<Rightarrow> False)"

definition is_DNSError :: "error \<Rightarrow> bool" where
  "is_DNSError e = (case e of DNSError _ _ \<Rightarrow> True | _ \<Rightarrow> False)"

fun request_remote ::
  "('w, 'ns, 'a, 'b) env \<Rightarrow> nat \<Rightarrow> 'ns \<Rightarrow> DNSMessage \<Rightarrow> 'w
     \<Rightarrow> ((error + DNSMessage option) \<times> 'w) option" where
  "request_remote env 0 nameservers req w = None"
| "request_remote env (Suc n) nameservers req w =
     (if future_cancelled env w then Some (Inr None, w)
      else
        (case ns_get env nameservers w of
           (None, w1) \<Rightarrow> Some (Inl InvalidNameServer, w1)
         | (Some addr, w1) \<Rightarrow>
             (case try_body env req addr w1 of
                (Inr inter_res, w2) \<Rightarrow> Some (Inr (Some inter_res), w2)
              | (Inl e, w2) \<Rightarrow>
                  if is_server_error e
                  then request_remote env n nameservers req (ns_fail env nameservers addr w2)
                  else if is_DNSError e
                  then Some (Inl (UnboundLocalError ''e''), w2)
                  else Some (Inl e, w2))))"

section \<open>\<open>Query.query_cache\<close>\<close>

text \<open>\<open>rec.copy(name=domain)\<close>.\<close>

definition rehome :: "string \<Rightarrow> DNSRecord \<Rightarrow> DNSRecord" where
  "rehome domain rec = rec\<lparr>rec_name := domain\<rparr>"

text \<open>\<open>domain.endswith(root)\<close>.\<close>

definition endswith :: "string \<Rightarrow> string \<Rightarrow> bool" where
  "endswith domain root =
     (length root \<le> length domain \<and> drop (length domain - length root) domain = root)"

definition under_rootdomains :: "('w, 'ns, 'a, 'b) env \<Rightarrow> string \<Rightarrow> bool" where
  "under_rootdomains env domain = list_ex (\<lambda>root. endswith domain root) (rootdomains env)"

text \<open>
  The loop over the cached CNAME records: each target is resolved through the
  resolver's entry point; a result that is \<open>None\<close> or has a positive result code is
  skipped. An exception of the awaited call leaves \<open>query_cache\<close>.
\<close>

fun cname_loop ::
  "('w, 'ns, 'a, 'b) env \<Rightarrow> Query \<Rightarrow> DNSRecord list \<Rightarrow> 'w \<Rightarrow> error option \<times> Query \<times> 'w" where
  "cname_loop env q [] w = (None, q, w)"
| "cname_loop env q (rec # recs) w =
     (case resolver_query env (rec_data rec) (query_qtype q) w of
        (Inl e, w') \<Rightarrow> (Some e, q, w')
      | (Inr None, w') \<Rightarrow> cname_loop env q recs w'
      | (Inr (Some inter_res), w') \<Rightarrow>
          if msg_r inter_res > 0 then cname_loop env q recs w'
          else cname_loop env
                 (q\<lparr>result := (result q)\<lparr>msg_an := msg_an (result q) @ msg_an inter_res,
                                          msg_ns := msg_ns inter_res,
                                          msg_ar := msg_ar inter_res\<rparr>\<rparr>)
                 recs w')"

text \<open>One iteration of \<open>for rec in cache.query(domain, self.qtype)\<close>.\<close>

definition scan_step ::
  "('w, 'ns, 'a, 'b) env \<Rightarrow> 'w \<Rightarrow> qtype \<Rightarrow> string \<Rightarrow> DNSRecord
     \<Rightarrow> DNSMessage \<times> bool \<Rightarrow> DNSMessage \<times> bool" where
  "scan_step env w qt domain rec st =
     (case st of (res, cache_hit) \<Rightarrow>
        if rec_qtype rec = types_NS then
          (let inter_res = cache_query env (rec_data rec) A_TYPES w in
           if inter_res \<noteq> [] then
             (res\<lparr>msg_ar := msg_ar res @ inter_res, msg_ns := msg_ns res @ [rec]\<rparr>,
              if rec_qtype rec = qt then True else cache_hit)
           else (res, cache_hit))
        else
          (res\<lparr>msg_an := msg_an res @ [rehome domain rec]\<rparr>,
           if qt = types_CNAME \<or> rec_qtype rec \<noteq> types_CNAME then True else cache_hit))"

definition scan_cache ::
  "('w, 'ns, 'a, 'b) env \<Rightarrow> 'w \<Rightarrow> qtype \<Rightarrow> string \<Rightarrow> DNSMessage \<Rightarrow> DNSMessage \<times> bool" where
  "scan_cache env w qt domain res =
     fold (scan_step env w qt domain) (cache_query env domain [qt] w) (res, False)"

text \<open>
  \<open>query_cache\<close> returns the hit flag or the exception, together with the \<open>Query\<close>
  as mutated so far and the world.
\<close>

definition query_cache ::
  "('w, 'ns, 'a, 'b) env \<Rightarrow> Query \<Rightarrow> string \<Rightarrow> 'w \<Rightarrow> (error + bool) \<times> Query \<times> 'w" where
  "query_cache env q domain w =
     (let cname = cache_query env domain [types_CNAME] w in
      if cname \<noteq> [] then
        (let res1 = (result q)\<lparr>msg_an := msg_an (result q) @ map (rehome domain) cname\<rparr>;
             res2 = (if list_all (\<lambda>rec. rec_ttl rec < 0) cname then res1\<lparr>msg_aa := 1\<rparr> else res1);
             q2 = q\<lparr>result := res2\<rparr>
         in if query_qtype q = types_CNAME then (Inr True, q2, w)
            else (case cname_loop env q2 cname w of
                    (Some e, q3, w') \<Rightarrow> (Inl e, q3, w')
                  | (None, q3, w') \<Rightarrow> (Inr True, q3, w')))
      else
        (case scan_cache env w (query_qtype q) domain (result q) of
           (res1, cache_hit) \<Rightarrow>
             if under_rootdomains env domain then
               (let res2 = (if \<not> cache_hit then res1\<lparr>msg_r := 3\<rparr> else res1)
                in (Inr True, q\<lparr>result := res2\<lparr>msg_aa := 1\<rparr>\<rparr>, w))
             else (Inr cache_hit, q\<lparr>result := res1\<rparr>, w)))"

section \<open>\<open>Query.query_remote_once\<close> and \<open>Query.query_remote\<close>\<close>

text \<open>
  \<open>request_remote\<close> returns \<open>None\<close> when the future is cancelled; \<open>query_remote_once\<close>
  passes it to \<open>resolver.cache_message\<close> and returns it.
\<close>

definition query_remote_once ::
  "('w, 'ns, 'a, 'b) env \<Rightarrow> nat \<Rightarrow> qtype \<Rightarrow> string \<Rightarrow> 'ns option \<Rightarrow> 'w
     \<Rightarrow> ((error + DNSMessage option) \<times> 'w) option" where
  "query_remote_once env n qt domain nameservers w =
     (let (nss, w0) = (case nameservers of None \<Rightarrow> get_nameservers env domain w
                                           | Some nss \<Rightarrow> (nss, w));
          req = (new_message env)\<lparr>msg_qr := REQUEST,
                                  msg_qd := [\<lparr>q_name = domain, q_qtype = qt\<rparr>]\<rparr>
      in case request_remote env n nss req w0 of
           None \<Rightarrow> None
         | Some (Inl e, w1) \<Rightarrow> Some (Inl e, w1)
         | Some (Inr inter_res, w1) \<Rightarrow>
             (case cache_message env inter_res w1 of
                (Inl e, w2) \<Rightarrow> Some (Inl e, w2)
              | (Inr _, w2) \<Rightarrow> Some (Inr inter_res, w2)))"

text \<open>The loop over \<open>inter_res.an\<close>: state \<open>(result, cname, has_result)\<close>.\<close>

definition an_step ::
  "qtype \<Rightarrow> DNSRecord \<Rightarrow> DNSMessage \<times> string list \<times> bool \<Rightarrow> DNSMessage \<times> string list \<times> bool" where
  "an_step qt rec st =
     (case st of (res, cname, has_result) \<Rightarrow>
        (res\<lparr>msg_an := msg_an res @ [rec]\<rparr>,
         if rec_qtype rec = types_CNAME then cname @ [rec_data rec] else cname,
         if qt = types_CNAME \<or> rec_qtype rec \<noteq> types_CNAME then True else has_result))"

text \<open>The loop over \<open>inter_res.ns\<close>: state \<open>(result, has_result, has_ns)\<close>.\<close>

definition ns_step ::
  "bool \<Rightarrow> qtype \<Rightarrow> DNSRecord \<Rightarrow> DNSMessage \<times> bool \<times> bool \<Rightarrow> DNSMessage \<times> bool \<times> bool" where
  "ns_step recursive_mode qt rec st =
     (case st of (res, has_result, has_ns) \<Rightarrow>
        (if \<not> recursive_mode then res\<lparr>msg_ns := msg_ns res @ [rec]\<rparr> else res,
         if rec_qtype rec = types_SOA \<or> qt = types_NS then True else has_result,
         if rec_qtype rec = types_SOA \<or> qt = types_NS then has_ns else True))"

text \<open>
  The dictionary \<open>nsip_map\<close>, keyed by \<open>(rec.name, rec.qtype)\<close>; a later record
  overwrites an earlier one with the same key.
\<close>

definition nsip_map :: "DNSRecord list \<Rightarrow> (string \<times> qtype) \<rightharpoonup> string" where
  "nsip_map ar = fold (\<lambda>rec m. m((rec_name rec, rec_qtype rec) \<mapsto> rec_data rec)) ar Map.empty"

definition ns_host :: "DNSRecord \<Rightarrow> string" where
  "ns_host rec = (if rec_qtype rec = types_SOA then rec_mname rec else rec_data rec)"

definition nsips_step :: "((string \<times> qtype) \<rightharpoonup> string) \<Rightarrow> DNSRecord \<Rightarrow> string list \<Rightarrow> string list" where
  "nsips_step m rec nsips =
     (case m (ns_host rec, types_A) of None \<Rightarrow> nsips | Some ip \<Rightarrow> nsips @ [ip])"

definition nsips_of :: "DNSRecord list \<Rightarrow> DNSRecord list \<Rightarrow> string list" where
  "nsips_of ns ar = fold (nsips_step (nsip_map ar)) ns []"

text \<open>
  The two loops of \<open>query_remote\<close> over the response \<open>inter_res\<close>, started as the
  code starts them (\<open>cname = []\<close>, \<open>has_result = False\<close>, \<open>has_ns = False\<close>): the
  result is \<open>(result, cname, has_result, has_ns)\<close>.
\<close>

definition classify ::
  "bool \<Rightarrow> qtype \<Rightarrow> DNSMessage \<Rightarrow> DNSMessage \<Rightarrow> DNSMessage \<times> string list \<times> bool \<times> bool" where
  "classify recursive_mode qt inter_res res =
     (case fold (an_step qt) (msg_an inter_res) (res, [], False) of
        (res1, cname, has_result1) \<Rightarrow>
          (case fold (ns_step recursive_mode qt) (msg_ns inter_res) (res1, has_result1, False) of
             (res2, has_result, has_ns) \<Rightarrow> (res2, cname, has_result, has_ns)))"

text \<open>
  \<open>query_remote\<close>: \<open>Inr None\<close> is the plain \<open>return\<close>, \<open>Inr (Some (domain, nameservers))\<close>
  the next hop. Reading \<open>inter_res.an\<close> of \<open>None\<close> raises \<open>AttributeError\<close>.
\<close>

definition query_remote ::
  "('w, 'ns, 'a, 'b) env \<Rightarrow> nat \<Rightarrow> Query \<Rightarrow> string \<Rightarrow> 'ns option \<Rightarrow> 'w
     \<Rightarrow> ((error + (string \<times> 'ns option) option) \<times> Query \<times> 'w) option" where
  "query_remote env n q domain nameservers w =
     (case query_remote_once env n (query_qtype q) domain nameservers w of
        None \<Rightarrow> None
      | Some (Inl e, w1) \<Rightarrow> Some (Inl e, q, w1)
      | Some (Inr None, w1) \<Rightarrow> Some (Inl AttributeError, q, w1)
      | Some (Inr (Some inter_res), w1) \<Rightarrow>
          (case classify (recursive env) (query_qtype q) inter_res (result q) of
             (res2, cname, has_result, has_ns) \<Rightarrow>
          (let res3 = (if \<not> recursive env
                       then res2\<lparr>msg_ar := msg_ar res2 @ msg_ar inter_res\<rparr> else res2)
           in if has_result then Some (Inr None, q\<lparr>result := res3\<rparr>, w1)
              else (case cname of
                      c # _ \<Rightarrow> Some (Inr (Some (c, None)), q\<lparr>result := res3\<rparr>, w1)
                    | [] \<Rightarrow>
                        if \<not> recursive env
                        then Some (Inr None, q\<lparr>result := res3\<lparr>msg_r := msg_r inter_res\<rparr>\<rparr>, w1)
                        else if \<not> has_ns
                        then Some (Inr None, q\<lparr>result := res3\<lparr>msg_r := 2\<rparr>\<rparr>, w1)
                        else (case NameServers env (nsips_of (msg_ns inter_res) (msg_ar inter_res)) w1 of
                                (nss, w2) \<Rightarrow>
                                  Some (Inr (Some (domain, Some nss)), q\<lparr>result := res3\<rparr>, w2))))))"

section \<open>\<open>Query.query\<close>\<close>

text \<open>
  How the \<open>try\<close> statement of \<open>query\<close> ends: the loop was left by a \<open>break\<close>, or
  \<open>except Exception as e\<close> caught an exception, or an exception that is not an
  \<open>Exception\<close> left the statement, and \<open>query\<close> with it.
\<close>

datatype loop_end = Finished | Caught error | Uncaught error

definition handler :: "error \<Rightarrow> loop_end" where
  "handler e = (if is_Exception e then Caught e else Uncaught e)"

text \<open>
  The \<open>while True\<close> loop inside the \<open>try\<close>, with the \<open>Query\<close> and the world at its
  end; \<open>None\<close> is "still running" after \<open>fuel\<close> iterations. An iteration in which both
  \<open>if not self.future.cancelled()\<close> tests fail does nothing and goes round again.
\<close>

fun query_loop ::
  "('w, 'ns, 'a, 'b) env \<Rightarrow> nat \<Rightarrow> Query \<Rightarrow> string \<Rightarrow> 'ns option \<Rightarrow> 'w
     \<Rightarrow> (loop_end \<times> Query \<times> 'w) option" where
  "query_loop env 0 q domain nameservers w = None"
| "query_loop env (Suc n) q domain nameservers w =
     (case (if \<not> future_cancelled env w
            then (case query_cache env q domain w of
                    (Inl e, q1, w1) \<Rightarrow> Inl (handler e, q1, w1)
                  | (Inr hit, q1, w1) \<Rightarrow>
                      if hit then Inl (Finished, q1\<lparr>from_cache := hit\<rparr>, w1)
                      else Inr (q1\<lparr>from_cache := hit\<rparr>, w1))
            else Inr (q, w)) of
        Inl stop \<Rightarrow> Some stop
      | Inr (q2, w2) \<Rightarrow>
          if \<not> future_cancelled env w2
          then (case query_remote env n q2 domain nameservers w2 of
                  None \<Rightarrow> None
                | Some (Inl e, q3, w3) \<Rightarrow> Some (handler e, q3, w3)
                | Some (Inr None, q3, w3) \<Rightarrow> Some (Finished, q3, w3)
                | Some (Inr (Some (domain', nameservers')), q3, w3) \<Rightarrow>
                    query_loop env n q3 domain' nameservers' w3)
          else query_loop env n q2 domain nameservers w2)"

text \<open>
  \<open>future.set_result\<close> and \<open>future.set_exception\<close> raise \<open>InvalidStateError\<close> on a
  future that is already done.
\<close>

definition settle :: "future_state \<Rightarrow> Query \<Rightarrow> error + Query" where
  "settle v q = (if future q = Pending then Inr (q\<lparr>future := v\<rparr>) else Inl InvalidStateError)"

text \<open>
  \<open>Query.query\<close>: what the coroutine raises to its caller (\<open>Inl\<close>) or that it
  returns (\<open>Inr\<close>), with the final \<open>Query\<close> and world; \<open>None\<close> when the loop is still
  running after \<open>fuel\<close> iterations. An exception that the handler does not catch
  leaves \<open>query\<close> before the statements that settle the future.
\<close>

definition query ::
  "('w, 'ns, 'a, 'b) env \<Rightarrow> nat \<Rightarrow> Query \<Rightarrow> 'w \<Rightarrow> ((error + unit) \<times> Query \<times> 'w) option" where
  "query env fuel q w =
     (case query_loop env fuel q (fqdn q) None w of
        None \<Rightarrow> None
      | Some (Uncaught e, q1, w1) \<Rightarrow> Some (Inl e, q1, w1)
      | Some (Caught e, q1, w1) \<Rightarrow>
          if \<not> future_cancelled env w1 then
            (case settle (Exception e) q1 of
               Inl e' \<Rightarrow> Some (Inl e', q1, w1)
             | Inr q2 \<Rightarrow> Some (Inr (), q2, w1))
          else Some (Inr (), q1, w1)
      | Some (Finished, q1, w1) \<Rightarrow>
          if \<not> future_cancelled env w1 then
            (case settle (Result (result q1, from_cache q1)) q1 of
               Inl e' \<Rightarrow> Some (Inl e', q1, w1)
             | Inr q2 \<Rightarrow> Some (Inr (), q2, w1))
          else Some (Inr (), q1, w1))"

section \<open>\<open>BaseResolver.query\<close> of \<open>async_dns/resolver/base.py\<close>\<close>

text \<open>
  The resolver runs on a single-threaded event loop: the code between two \<open>await\<close>s
  runs without interruption, so the interleavings of the program are the sequences
  of these uninterrupted pieces. The state is the dictionary \<open>request_cache\<close> and the
  tasks created by \<open>asyncio.ensure_future(self._query(fqdn, qtype, addr))\<close>, one
  invocation of \<open>_query\<close> (and of the transport) each. A task is named by its index
  in \<open>tasks\<close>. \<open>'k\<close> is the key \<open>(fqdn, qtype, addr)\<close>, \<open>'r\<close> what a task ends with: the
  response, a transport error, the timeout of \<open>asyncio.wait_for\<close> or a cancellation.

  A task carries its done callbacks in the order in which they were added: first
  the \<open>lambda\<close> of \<open>query\<close> that pops the key (added before the first \<open>await task\<close>), then
  the wake-up of each coroutine suspended in \<open>await task\<close>. When the task ends, the
  event loop schedules them (\<open>call_soon\<close>) and runs them later, in that order; other
  code that was already scheduled runs in between.
\<close>

record ('k, 'r) task =
  task_key :: 'k
  task_outcome :: "'r option"
  popped :: bool
  waiters :: "nat list"

text \<open>
  \<open>calls\<close> logs, for every call of \<open>query\<close>, the caller, the key and the task it awaits;
  \<open>returned\<close> logs every call that has ended, with the caller, the task and what the
  caller received.
\<close>

record ('k, 'r) BaseResolver =
  request_cache :: "'k \<rightharpoonup> nat"
  tasks :: "('k, 'r) task list"
  calls :: "(nat \<times> 'k \<times> nat) list"
  returned :: "(nat \<times> nat \<times> 'r) list"

definition BaseResolver_init :: "('k, 'r) BaseResolver" where
  "BaseResolver_init = \<lparr>request_cache = Map.empty, tasks = [], calls = [], returned = []\<rparr>"

text \<open>
  \<open>await task\<close> by caller \<open>c\<close>: a task that is done gives its outcome at once,
  without suspending; otherwise the caller's wake-up is added to the callbacks.
\<close>

definition await_task :: "nat \<Rightarrow> nat \<Rightarrow> ('k, 'r) BaseResolver \<Rightarrow> ('k, 'r) BaseResolver" where
  "await_task c t s =
     (if t < length (tasks s) then
        (case task_outcome (tasks s ! t) of
           Some outcome \<Rightarrow> s\<lparr>returned := returned s @ [(c, t, outcome)]\<rparr>
         | None \<Rightarrow> s\<lparr>tasks := (tasks s)[t := (tasks s ! t)\<lparr>waiters := waiters (tasks s ! t) @ [c]\<rparr>]\<rparr>)
      else s)"

text \<open>The body of \<open>query\<close> up to its suspension, run by caller \<open>c\<close>.\<close>

definition query_call :: "nat \<Rightarrow> 'k \<Rightarrow> ('k, 'r) BaseResolver \<Rightarrow> ('k, 'r) BaseResolver" where
  "query_call c key s =
     (case request_cache s key of
        None \<Rightarrow>
          (let t = length (tasks s) in
           await_task c t
             (s\<lparr>tasks := tasks s @ [\<lparr>task_key = key, task_outcome = None, popped = False, waiters = []\<rparr>],
                request_cache := (request_cache s)(key \<mapsto> t),
                calls := calls s @ [(c, key, t)]\<rparr>))
      | Some t \<Rightarrow> await_task c t (s\<lparr>calls := calls s @ [(c, key, t)]\<rparr>))"

text \<open>Task \<open>t\<close> ends with \<open>outcome\<close>; nothing happens to a task that has ended.\<close>

definition settle_task :: "nat \<Rightarrow> 'r \<Rightarrow> ('k, 'r) BaseResolver \<Rightarrow> ('k, 'r) BaseResolver" where
  "settle_task t outcome s =
     (if t < length (tasks s) \<and> task_outcome (tasks s ! t) = None
      then s\<lparr>tasks := (tasks s)[t := (tasks s ! t)\<lparr>task_outcome := Some outcome\<rparr>]\<rparr>
      else s)"

text \<open>
  The event loop runs the next done callback of the ended task \<open>t\<close>: the
  \<open>request_cache.pop(key, None)\<close> first, then one wake-up at a time.
\<close>

definition run_callback :: "nat \<Rightarrow> ('k, 'r) BaseResolver \<Rightarrow> ('k, 'r) BaseResolver" where
  "run_callback t s =
     (if t < length (tasks s) then
        (case task_outcome (tasks s ! t) of
           None \<Rightarrow> s
         | Some outcome \<Rightarrow>
             if \<not> popped (tasks s ! t) then
               s\<lparr>request_cache := (request_cache s)(task_key (tasks s ! t) := None),
                 tasks := (tasks s)[t := (tasks s ! t)\<lparr>popped := True\<rparr>]\<rparr>
             else
               (case waiters (tasks s ! t) of
                  [] \<Rightarrow> s
                | c # cs \<Rightarrow>
                    s\<lparr>tasks := (tasks s)[t := (tasks s ! t)\<lparr>waiters := cs\<rparr>],
                      returned := returned s @ [(c, t, outcome)]\<rparr>))
      else s)"

datatype ('k, 'r) event = Call nat 'k | Settle nat 'r | Callback nat

fun step :: "('k, 'r) event \<Rightarrow> ('k, 'r) BaseResolver \<Rightarrow> ('k, 'r) BaseResolver" where
  "step (Call c key) s = query_call c key s"
| "step (Settle t outcome) s = settle_task t outcome s"
| "step (Callback t) s = run_callback t s"

definition run :: "('k, 'r) event list \<Rightarrow> ('k, 'r) BaseResolver \<Rightarrow> ('k, 'r) BaseResolver" where
  "run es s = fold step es s"

text \<open>The number of \<open>_query\<close> invocations for a key so far.\<close>

definition requests_for :: "'k \<Rightarrow> ('k, 'r) BaseResolver \<Rightarrow> nat" where
  "requests_for key s = length (filter (\<lambda>t. task_key t = key) (tasks s))"

definition in_flight :: "('k, 'r) BaseResolver \<Rightarrow> nat \<Rightarrow> bool" where
  "in_flight s t = (t < length (tasks s) \<and> task_outcome (tasks s ! t) = None)"

text \<open>
  What holds in every state that the resolver can reach: the dictionary maps a key
  to a task of that key whose pop callback has not run, every task whose pop
  callback has not run is in the dictionary under its key, a task whose pop callback
  has run has ended, every call that has ended received the outcome of the task it
  awaited, and every call awaits a task of its key.
\<close>

definition ledger_inv :: "('k, 'r) BaseResolver \<Rightarrow> bool" where
  "ledger_inv s \<longleftrightarrow>
     (\<forall>key t. request_cache s key = Some t \<longrightarrow>
        t < length (tasks s) \<and> task_key (tasks s ! t) = key \<and> \<not> popped (tasks s ! t)) \<and>
     (\<forall>t < length (tasks s). \<not> popped (tasks s ! t) \<longrightarrow>
        request_cache s (task_key (tasks s ! t)) = Some t) \<and>
     (\<forall>t < length (tasks s). popped (tasks s ! t) \<longrightarrow> task_outcome (tasks s ! t) \<noteq> None) \<and>
     (\<forall>x \<in> set (returned s). case x of (c, t, outcome) \<Rightarrow>
        t < length (tasks s) \<and> task_outcome (tasks s ! t) = Some outcome) \<and>
     (\<forall>x \<in> set (calls s). case x of (c, key, t) \<Rightarrow>
        t < length (tasks s) \<and> task_key (tasks s ! t) = key)"

section \<open>A concrete environment\<close>

text \<open>
  A small instance of the parameters, on which the theorems below are run. The world
  is the list of the addresses given to \<open>fail\<close> so far; a nameserver set is the list
  of its addresses and \<open>get\<close> returns the first one that has not failed. The raw data
  of a response is the message itself, or \<open>None\<close> for bytes that do not parse.
\<close>

definition demo_message :: DNSMessage where
  "demo_message = \<lparr>msg_qr = RESPONSE, msg_qd = [], msg_an = [], msg_ns = [], msg_ar = [],
                    msg_aa = 0, msg_ra = True, msg_r = 0\<rparr>"

definition demo_record :: "string \<Rightarrow> qtype \<Rightarrow> string \<Rightarrow> int \<Rightarrow> DNSRecord" where
  "demo_record n t d l = \<lparr>rec_name = n, rec_qtype = t, rec_data = d, rec_mname = [], rec_ttl = l\<rparr>"

definition demo_answer :: "Question \<Rightarrow> DNSMessage" where
  "demo_answer q =
     (if q_name q = ''w.ex'' then
        demo_message\<lparr>msg_an := [demo_record ''w.ex'' types_CNAME ''ex.net'' 60]\<rparr>
      else if q_name q = ''ex.org'' then
        demo_message\<lparr>msg_ns := [demo_record ''ex.org'' types_NS ''n1.ex'' 60,
                                demo_record ''ex.org'' types_NS ''n2.ex'' 60],
                      msg_ar := [demo_record ''n1.ex'' types_A ''192.0.2.1'' 60,
                                 demo_record ''n2.ex'' types_AAAA ''2001:db8::2'' 60]\<rparr>
      else
        demo_message\<lparr>msg_an := [demo_record (q_name q) (q_qtype q) ''192.0.2.7'' 60]\<rparr>)"

definition demo_network :: "DNSMessage \<Rightarrow> string \<Rightarrow> error + DNSMessage option" where
  "demo_network req addr =
     (if addr = ''s1'' then Inl TimeoutError
      else if addr = ''s2'' then Inr (Some (demo_message\<lparr>msg_qd := msg_qd req, msg_r := 2\<rparr>))
      else if addr = ''s3'' then
        (case msg_qd req of [] \<Rightarrow> Inr None
                          | q # _ \<Rightarrow> Inr (Some ((demo_answer q)\<lparr>msg_qd := msg_qd req\<rparr>)))
      else if addr = ''s4'' then
        Inr (Some (demo_message\<lparr>msg_qd := [\<lparr>q_name = ''other'', q_qtype = types_A\<rparr>]\<rparr>))
      else Inr None)"

definition demo_cache :: "string \<Rightarrow> qtype list \<Rightarrow> DNSRecord list" where
  "demo_cache domain qts =
     (if domain = ''c.local'' \<and> types_CNAME \<in> set qts
        then [demo_record ''c.local'' types_CNAME ''h.local'' 60]
      else if domain = ''h.local'' \<and> types_A \<in> set qts
        then [demo_record ''h.local'' types_A ''192.0.2.9'' 60]
      else [])"

definition demo_env :: "(string list, string list, string, DNSMessage option) env" where
  "demo_env =
     \<lparr>recursive = True,
      rootdomains = [''local''],
      resolver_protocol = UDP,
      request_timeout = 3,
      new_message = demo_message,
      cache_query = (\<lambda>domain qts w. demo_cache domain qts),
      cache_message = (\<lambda>m w. (Inr (), w)),
      resolver_query = (\<lambda>domain qt w. (Inr None, w)),
      get_nameservers = (\<lambda>domain w. ([''s1'', ''s2'', ''s3''], w)),
      NameServers = (\<lambda>ips w. (ips, w)),
      ns_get = (\<lambda>nss w. (case filter (\<lambda>a. a \<notin> set w) nss of [] \<Rightarrow> None | a # _ \<Rightarrow> Some a, w)),
      ns_fail = (\<lambda>nss a w. w @ [a]),
      tcp_request = (\<lambda>req addr timeout w. (demo_network req addr, w)),
      udp_request = (\<lambda>req addr timeout w. (demo_network req addr, w)),
      parse = (\<lambda>b. case b of None \<Rightarrow> Inl (DNSError 1 ''Format error'') | Some m \<Rightarrow> Inr m),
      future_cancelled = (\<lambda>w. False)\<rparr>"

text \<open>The same environment with a future that its owner has cancelled.\<close>

definition demo_env_cancelled :: "(string list, string list, string, DNSMessage option) env" where
  "demo_env_cancelled = demo_env\<lparr>future_cancelled := (\<lambda>w. True)\<rparr>"

text \<open>
  The same environment in which the task that runs \<open>query\<close> is cancelled while it
  awaits the transport, and one in which the resolver's entry point raises.
\<close>

definition demo_env_task_cancelled :: "(string list, string list, string, DNSMessage option) env" where
  "demo_env_task_cancelled = demo_env\<lparr>udp_request := (\<lambda>req addr timeout w. (Inl CancelledError, w))\<rparr>"

definition demo_env_cname_fails :: "(string list, string list, string, DNSMessage option) env" where
  "demo_env_cname_fails =
     demo_env\<lparr>resolver_query := (\<lambda>domain qt w. (Inl (OtherException ''no route''), w))\<rparr>"

definition demo_request :: "string \<Rightarrow> DNSMessage" where
  "demo_request domain =
     demo_message\<lparr>msg_qr := REQUEST, msg_qd := [\<lparr>q_name = domain, q_qtype = types_A\<rparr>]\<rparr>"

definition demo_query :: "string \<Rightarrow> qtype \<Rightarrow> Query" where
  "demo_query domain qt =
     \<lparr>fqdn = domain, query_qtype = qt, from_cache = False,
      result = demo_message\<lparr>msg_qd := [\<lparr>q_name = domain, q_qtype = qt\<rparr>]\<rparr>,
      future = Pending\<rparr>"

text \<open>
  Two keys and an outcome for the runs of \<open>BaseResolver.query\<close>, and two schedules:
  in \<open>demo_events_shared\<close> two callers share a request and are woken after it has
  ended; in \<open>demo_events_late\<close> a second caller arrives after the request has ended
  and before its pop callback has run.
\<close>

definition demo_key :: "string \<times> qtype \<times> string" where
  "demo_key = (''a.b'', types_A, ''s1'')"

definition demo_key2 :: "string \<times> qtype \<times> string" where
  "demo_key2 = (''a.b'', types_A, ''s2'')"

definition demo_outcome :: "error + string" where
  "demo_outcome = Inr ''answer''"

definition demo_events_shared :: "(string \<times> qtype \<times> string, error + string) event list" where
  "demo_events_shared =
     [Call 0 demo_key, Call 1 demo_key, Settle 0 demo_outcome, Callback 0, Callback 0, Callback 0]"

definition demo_events_late :: "(string \<times> qtype \<times> string, error + string) event list" where
  "demo_events_late = [Call 0 demo_key, Settle 0 demo_outcome, Call 1 demo_key]"

section \<open>Failover in \<open>request_remote\<close>\<close>

text \<open>
  A timeout and the failed assertion are caught inside the loop, so neither can be
  the exception that leaves \<open>request_remote\<close>.
\<close>

lemma request_remote_never_server_error:
  "request_remote env m nss req w = Some (Inl e, w') \<Longrightarrow> \<not> is_server_error e"
proof (induction m arbitrary: w)
  case 0
  then show ?case by simp
next
  case (Suc m)
  show ?case
  proof (cases "future_cancelled env w")
    case True
    with Suc.prems show ?thesis by simp
  next
    case False
    obtain oa w1 where g: "ns_get env nss w = (oa, w1)" by (cases "ns_get env nss w")
    show ?thesis
    proof (cases oa)
      case None
      with Suc.prems False g show ?thesis by (simp add: is_server_error_def)
    next
      case (Some addr)
      obtain res w2 where t: "try_body env req addr w1 = (res, w2)"
        by (cases "try_body env req addr w1")
      show ?thesis
      proof (cases res)
        case (Inr m')
        with Suc.prems False g Some t show ?thesis by simp
      next
        case (Inl e1)
        show ?thesis
        proof (cases "is_server_error e1")
          case True
          with Suc.prems False g Some t Inl
          have "request_remote env m nss req (ns_fail env nss addr w2) = Some (Inl e, w')"
            by simp
          then show ?thesis by (rule Suc.IH)
        next
          case no: False
          show ?thesis
          proof (cases "is_DNSError e1")
            case True
            with Suc.prems False g Some t Inl no have "e = UnboundLocalError ''e''" by simp
            then show ?thesis by (simp add: is_server_error_def)
          next
            case False
            with Suc.prems \<open>\<not> future_cancelled env w\<close> g Some t Inl no have "e = e1" by simp
            with no show ?thesis by simp
          qed
        qed
      qed
    qed
  qed
qed

lemma request_remote_fail_step:
  "\<not> future_cancelled env w \<Longrightarrow> ns_get env nss w = (Some addr, w1) \<Longrightarrow>
   try_body env req addr w1 = (Inl e, w2) \<Longrightarrow> is_server_error e \<Longrightarrow>
   request_remote env (Suc n) nss req w = request_remote env n nss req (ns_fail env nss addr w2)"
  by simp

lemma try_body_timeout:
  "request_once env req addr w1 = (Inl e, w2) \<Longrightarrow> try_body env req addr w1 = (Inl e, w2)"
  by (simp add: try_body_def)

lemma try_body_rcode2:
  "request_once env req addr w1 = (Inr data, w2) \<Longrightarrow> parse env data = Inr m \<Longrightarrow>
   msg_qd m = q # qs \<Longrightarrow> msg_qd req = q' # qs' \<Longrightarrow> q_name q = q_name q' \<Longrightarrow> msg_r m = 2 \<Longrightarrow>
   try_body env req addr w1 = (Inl (AssertionError ''Remote server fail''), w2)"
  by (simp add: try_body_def)

lemma try_body_mismatch:
  "request_once env req addr w1 = (Inr data, w2) \<Longrightarrow> parse env data = Inr m \<Longrightarrow>
   msg_qd m = q # qs \<Longrightarrow> msg_qd req = q' # qs' \<Longrightarrow> q_name q \<noteq> q_name q' \<Longrightarrow>
   try_body env req addr w1 = (Inl (DNSError (- 1) ''Question section mismatch''), w2)"
  by (simp add: try_body_def)

text \<open>
  C3, as the code has it. A timeout of the request, and a response with the
  request's question name and result code 2, make \<open>request_remote\<close> call
  \<open>nameservers.fail(addr)\<close> and go on with the next candidate; when \<open>get()\<close> returns
  nothing, \<open>InvalidNameServer\<close> is raised (the exception the specification calls
  NoUsableNameServer); and neither a timeout nor the assertion failure is ever the
  exception raised by \<open>request_remote\<close>. A response with a different question name is
  not among these failures: it raises \<open>DNSError\<close>, whose handler does not call \<open>fail\<close>.
\<close>

theorem request_remote_failover:
  "(\<not> future_cancelled env w \<and> ns_get env nss w = (Some addr, w1) \<and>
      request_once env req addr w1 = (Inl TimeoutError, w2)
     \<longrightarrow> request_remote env (Suc n) nss req w
           = request_remote env n nss req (ns_fail env nss addr w2))
   \<and> (\<not> future_cancelled env w \<and> ns_get env nss w = (Some addr, w1) \<and>
      request_once env req addr w1 = (Inr data, w2) \<and> parse env data = Inr m \<and>
      msg_qd m = q # qs \<and> msg_qd req = q' # qs' \<and> q_name q = q_name q' \<and> msg_r m = 2
     \<longrightarrow> request_remote env (Suc n) nss req w
           = request_remote env n nss req (ns_fail env nss addr w2))
   \<and> (\<not> future_cancelled env w \<and> ns_get env nss w = (None, w1)
     \<longrightarrow> request_remote env (Suc n) nss req w = Some (Inl InvalidNameServer, w1))
   \<and> (request_remote env k nss req w = Some (Inl e, w')
     \<longrightarrow> e \<noteq> TimeoutError \<and> (\<forall>msg. e \<noteq> AssertionError msg))"
proof (intro conjI impI)
  assume "\<not> future_cancelled env w \<and> ns_get env nss w = (Some addr, w1) \<and>
      request_once env req addr w1 = (Inl TimeoutError, w2)"
  then show "request_remote env (Suc n) nss req w
           = request_remote env n nss req (ns_fail env nss addr w2)"
    by (simp add: try_body_timeout is_server_error_def)
next
  assume a: "\<not> future_cancelled env w \<and> ns_get env nss w = (Some addr, w1) \<and>
      request_once env req addr w1 = (Inr data, w2) \<and> parse env data = Inr m \<and>
      msg_qd m = q # qs \<and> msg_qd req = q' # qs' \<and> q_name q = q_name q' \<and> msg_r m = 2"
  then have "try_body env req addr w1 = (Inl (AssertionError ''Remote server fail''), w2)"
    by (auto simp: try_body_def)
  with a show "request_remote env (Suc n) nss req w
           = request_remote env n nss req (ns_fail env nss addr w2)"
    by (simp add: is_server_error_def)
next
  assume "\<not> future_cancelled env w \<and> ns_get env nss w = (None, w1)"
  then show "request_remote env (Suc n) nss req w = Some (Inl InvalidNameServer, w1)"
    by simp
next
  assume r: "request_remote env k nss req w = Some (Inl e, w')"
  from request_remote_never_server_error [OF r]
  show "e \<noteq> TimeoutError" by (auto simp: is_server_error_def)
next
  assume r: "request_remote env k nss req w = Some (Inl e, w')"
  from request_remote_never_server_error [OF r]
  show "\<forall>msg. e \<noteq> AssertionError msg" by (auto simp: is_server_error_def)
qed

text \<open>The definitions that a run on the concrete environment unfolds.\<close>

lemmas demo_defs = demo_env_def demo_network_def demo_request_def demo_message_def
  request_once_def try_body_def is_server_error_def is_DNSError_def demo_answer_def demo_record_def

text \<open>
  The failover on the concrete environment: \<open>s1\<close> times out, \<open>s2\<close> answers with result
  code 2, and the set is exhausted.
\<close>

theorem request_remote_failover_witness:
  "\<not> future_cancelled demo_env [] \<and>
   ns_get demo_env [''s1'', ''s2''] [] = (Some ''s1'', []) \<and>
   request_once demo_env (demo_request ''a.b'') ''s1'' [] = (Inl TimeoutError, []) \<and>
   request_remote demo_env (Suc 2) [''s1'', ''s2''] (demo_request ''a.b'') []
     = request_remote demo_env 2 [''s1'', ''s2''] (demo_request ''a.b'')
         (ns_fail demo_env [''s1'', ''s2''] ''s1'' []) \<and>
   \<not> future_cancelled demo_env [''s1''] \<and>
   ns_get demo_env [''s1'', ''s2''] [''s1''] = (Some ''s2'', [''s1'']) \<and>
   request_once demo_env (demo_request ''a.b'') ''s2'' [''s1'']
     = (Inr (Some (demo_message\<lparr>msg_qd := msg_qd (demo_request ''a.b''), msg_r := 2\<rparr>)), [''s1'']) \<and>
   request_remote demo_env (Suc 1) [''s1'', ''s2''] (demo_request ''a.b'') [''s1'']
     = request_remote demo_env 1 [''s1'', ''s2''] (demo_request ''a.b'')
         (ns_fail demo_env [''s1'', ''s2''] ''s2'' [''s1'']) \<and>
   ns_get demo_env [''s1'', ''s2''] [''s1'', ''s2''] = (None, [''s1'', ''s2'']) \<and>
   request_remote demo_env (Suc 0) [''s1'', ''s2''] (demo_request ''a.b'') [''s1'', ''s2'']
     = Some (Inl InvalidNameServer, [''s1'', ''s2'']) \<and>
   InvalidNameServer \<noteq> TimeoutError"
proof -
  let ?nss = "[''s1'', ''s2'']" and ?req = "demo_request ''a.b''"
  let ?m = "demo_message\<lparr>msg_qd := msg_qd ?req, msg_r := 2\<rparr>"
  let ?q = "\<lparr>q_name = ''a.b'', q_qtype = types_A\<rparr>"
  have c: "\<not> future_cancelled demo_env w" for w by (simp add: demo_env_def)
  have g0: "ns_get demo_env ?nss [] = (Some ''s1'', [])" by (simp add: demo_env_def)
  have r0: "request_once demo_env ?req ''s1'' [] = (Inl TimeoutError, [])"
    by (simp add: demo_env_def request_once_def demo_network_def)
  have g1: "ns_get demo_env ?nss [''s1''] = (Some ''s2'', [''s1''])" by (simp add: demo_env_def)
  have r1: "request_once demo_env ?req ''s2'' [''s1''] = (Inr (Some ?m), [''s1''])"
    by (simp add: demo_env_def request_once_def demo_network_def)
  have p1: "parse demo_env (Some ?m) = Inr ?m" by (simp add: demo_env_def)
  have q1: "msg_qd ?m = ?q # []" "msg_qd ?req = ?q # []" "msg_r ?m = 2"
    by (simp_all add: demo_request_def demo_message_def)
  have g2: "ns_get demo_env ?nss [''s1'', ''s2''] = (None, [''s1'', ''s2''])"
    by (simp add: demo_env_def)
  have s0: "request_remote demo_env (Suc 2) ?nss ?req []
              = request_remote demo_env 2 ?nss ?req (ns_fail demo_env ?nss ''s1'' [])"
    using request_remote_failover [of demo_env "[]" ?nss "''s1''" "[]" ?req "[]" 2] c g0 r0
    by blast
  have s1: "request_remote demo_env (Suc 1) ?nss ?req [''s1'']
              = request_remote demo_env 1 ?nss ?req (ns_fail demo_env ?nss ''s2'' [''s1''])"
    using request_remote_failover [of demo_env "[''s1'']" ?nss "''s2''" "[''s1'']" ?req "[''s1'']" 1
            "Some ?m" ?m ?q "[]" ?q "[]"] c g1 r1 p1 q1
    by blast
  have s2: "request_remote demo_env (Suc 0) ?nss ?req [''s1'', ''s2'']
              = Some (Inl InvalidNameServer, [''s1'', ''s2''])"
    using request_remote_failover [of demo_env "[''s1'', ''s2'']" ?nss _ "[''s1'', ''s2'']" ?req _ 0] c g2
    by blast
  have s3: "InvalidNameServer \<noteq> TimeoutError"
    using request_remote_failover [of demo_env "[''s1'', ''s2'']" ?nss _ _ ?req _ _ _ _ _ _ _ _
            "Suc 0" InvalidNameServer "[''s1'', ''s2'']"] s2
    by blast
  from c g0 r0 s0 g1 r1 s1 g2 s2 s3 show ?thesis by blast
qed

text \<open>
  C4. The claim is that a \<open>DNSError\<close> is logged and the next candidate is tried, with
  no exception leaving \<open>request_remote\<close>. The handler reads the unbound variable \<open>e\<close>:
  on any \<open>DNSError\<close> raised in the \<open>try\<close> body, \<open>request_remote\<close> raises
  \<open>UnboundLocalError\<close> and tries no further address.
\<close>

theorem request_remote_dns_error_raises:
  "\<not> future_cancelled env w \<Longrightarrow> ns_get env nss w = (Some addr, w1) \<Longrightarrow>
   try_body env req addr w1 = (Inl (DNSError code msg), w2) \<Longrightarrow>
   request_remote env (Suc n) nss req w = Some (Inl (UnboundLocalError ''e''), w2)"
  by (simp add: is_server_error_def is_DNSError_def)

text \<open>Address \<open>s5\<close> sends bytes that do not parse; \<open>s3\<close>, which would answer, is never asked.\<close>

theorem request_remote_dns_error_raises_witness:
  "\<not> future_cancelled demo_env [] \<and>
   ns_get demo_env [''s5'', ''s3''] [] = (Some ''s5'', []) \<and>
   try_body demo_env (demo_request ''a.b'') ''s5'' [] = (Inl (DNSError 1 ''Format error''), []) \<and>
   request_remote demo_env 2 [''s5'', ''s3''] (demo_request ''a.b'') []
     = Some (Inl (UnboundLocalError ''e''), [])"
proof -
  have c: "\<not> future_cancelled demo_env []" by (simp add: demo_env_def)
  have g: "ns_get demo_env [''s5'', ''s3''] [] = (Some ''s5'', [])" by (simp add: demo_env_def)
  have t: "try_body demo_env (demo_request ''a.b'') ''s5'' [] = (Inl (DNSError 1 ''Format error''), [])"
    by (simp add: demo_defs)
  from request_remote_dns_error_raises [OF c g t, of 1] c g t show ?thesis
    by (simp add: numeral_2_eq_2)
qed

text \<open>
  C3 as stated fails for a question mismatch: address \<open>s4\<close> answers another question,
  no address is marked failed (the world stays \<open>[]\<close>), the next candidate \<open>s3\<close> is not
  tried and an exception reaches the caller.
\<close>

theorem request_remote_mismatch_counterexample:
  "try_body demo_env (demo_request ''a.b'') ''s4'' []
     = (Inl (DNSError (- 1) ''Question section mismatch''), []) \<and>
   request_remote demo_env 2 [''s4'', ''s3''] (demo_request ''a.b'') []
     = Some (Inl (UnboundLocalError ''e''), []) \<and>
   request_remote demo_env 2 [''s4'', ''s3''] (demo_request ''a.b'') []
     \<noteq> request_remote demo_env 1 [''s4'', ''s3''] (demo_request ''a.b'')
          (ns_fail demo_env [''s4'', ''s3''] ''s4'' [])"
  by (simp add: demo_defs numeral_2_eq_2)

section \<open>The root domains in \<open>query_cache\<close>\<close>

lemmas cache_defs = demo_env_def demo_cache_def demo_query_def demo_message_def demo_record_def
  query_cache_def scan_cache_def scan_step_def under_rootdomains_def endswith_def rehome_def
  A_TYPES_def

text \<open>
  C7. For a domain that ends with one of the resolver's root domains, when the cache
  holds no CNAME record for it and the scan of the cache ends without a hit,
  \<open>query_cache\<close> sets result code 3 and the authoritative flag on the accumulated
  message and returns \<open>True\<close>; the loop of \<open>query\<close> then stops in this iteration, with
  the world as \<open>query_cache\<close> found it: no nameserver is asked.
\<close>

theorem query_cache_name_error:
  assumes "under_rootdomains env domain"
    and "cache_query env domain [types_CNAME] w = []"
    and "scan_cache env w (query_qtype q) domain (result q) = (res, False)"
  shows "query_cache env q domain w = (Inr True, q\<lparr>result := res\<lparr>msg_r := 3, msg_aa := 1\<rparr>\<rparr>, w)
       \<and> (\<not> future_cancelled env w \<longrightarrow>
            query_loop env (Suc n) q domain nameservers w
              = Some (Finished, q\<lparr>result := res\<lparr>msg_r := 3, msg_aa := 1\<rparr>, from_cache := True\<rparr>, w))"
  using assms by (simp add: query_cache_def)

text \<open>The name \<open>x.local\<close> is under the root domain \<open>local\<close> and not in the cache.\<close>

theorem query_cache_name_error_witness:
  "under_rootdomains demo_env ''x.local'' \<and>
   cache_query demo_env ''x.local'' [types_CNAME] [] = [] \<and>
   scan_cache demo_env [] types_A ''x.local'' (result (demo_query ''x.local'' types_A))
     = (result (demo_query ''x.local'' types_A), False) \<and>
   \<not> future_cancelled demo_env [] \<and>
   fst (query_cache demo_env (demo_query ''x.local'' types_A) ''x.local'' []) = Inr True \<and>
   msg_r (result (fst (snd (query_cache demo_env (demo_query ''x.local'' types_A) ''x.local'' [])))) = 3 \<and>
   msg_aa (result (fst (snd (query_cache demo_env (demo_query ''x.local'' types_A) ''x.local'' [])))) = 1 \<and>
   query_loop demo_env (Suc 0) (demo_query ''x.local'' types_A) ''x.local'' None []
     = Some (Finished, (demo_query ''x.local'' types_A)
         \<lparr>result := (result (demo_query ''x.local'' types_A))\<lparr>msg_r := 3, msg_aa := 1\<rparr>,
          from_cache := True\<rparr>, [])"
proof -
  let ?q = "demo_query ''x.local'' types_A"
  have u: "under_rootdomains demo_env ''x.local''"
    by (simp add: under_rootdomains_def endswith_def demo_env_def)
  have c: "cache_query demo_env ''x.local'' [types_CNAME] [] = []"
    by (simp add: demo_env_def demo_cache_def)
  have s: "scan_cache demo_env [] (query_qtype ?q) ''x.local'' (result ?q) = (result ?q, False)"
    by (simp add: scan_cache_def demo_env_def demo_cache_def demo_query_def)
  have n: "\<not> future_cancelled demo_env []" by (simp add: demo_env_def)
  have t: "query_qtype ?q = types_A" by (simp add: demo_query_def)
  from query_cache_name_error [OF u c s, of 0 None] u c s n t show ?thesis by simp
qed

text \<open>
  C10 as stated fails when the hit comes from cached CNAME records: that branch
  returns before the test on the root domains. \<open>c.local\<close> is under the root domain
  \<open>local\<close>, its cached CNAME record (with a positive ttl) answers a CNAME query, and
  the authoritative flag keeps the value 0 it had.
\<close>

theorem query_cache_cname_hit_counterexample:
  "under_rootdomains demo_env ''c.local'' \<and>
   fst (query_cache demo_env (demo_query ''c.local'' types_CNAME) ''c.local'' []) = Inr True \<and>
   msg_aa (result (demo_query ''c.local'' types_CNAME)) = 0 \<and>
   msg_aa (result (fst (snd (query_cache demo_env (demo_query ''c.local'' types_CNAME) ''c.local'' [])))) = 0"
  by (simp add: cache_defs)

text \<open>
  C10, as the code has it. For a domain that ends with one of the resolver's root
  domains and for which the cache holds no CNAME record, \<open>query_cache\<close> returns \<open>True\<close>
  and sets the authoritative flag whether or not the scan of the cache had a hit;
  the result code becomes 3 only when it had none.
\<close>

theorem query_cache_sets_aa:
  assumes "under_rootdomains env domain"
    and "cache_query env domain [types_CNAME] w = []"
  shows "fst (query_cache env q domain w) = Inr True
       \<and> msg_aa (result (fst (snd (query_cache env q domain w)))) = 1
       \<and> msg_r (result (fst (snd (query_cache env q domain w))))
           = (if snd (scan_cache env w (query_qtype q) domain (result q))
              then msg_r (fst (scan_cache env w (query_qtype q) domain (result q))) else 3)"
  using assms by (simp add: query_cache_def Let_def split: prod.splits)

text \<open>The cached address record of \<open>h.local\<close> is a hit, and the flag is set all the same.\<close>

theorem query_cache_sets_aa_witness:
  "under_rootdomains demo_env ''h.local'' \<and>
   cache_query demo_env ''h.local'' [types_CNAME] [] = [] \<and>
   snd (scan_cache demo_env [] types_A ''h.local'' (result (demo_query ''h.local'' types_A))) \<and>
   fst (query_cache demo_env (demo_query ''h.local'' types_A) ''h.local'' []) = Inr True \<and>
   msg_aa (result (demo_query ''h.local'' types_A)) = 0 \<and>
   msg_aa (result (fst (snd (query_cache demo_env (demo_query ''h.local'' types_A) ''h.local'' [])))) = 1 \<and>
   msg_r (result (fst (snd (query_cache demo_env (demo_query ''h.local'' types_A) ''h.local'' [])))) = 0"
proof -
  let ?q = "demo_query ''h.local'' types_A"
  have u: "under_rootdomains demo_env ''h.local''"
    by (simp add: under_rootdomains_def endswith_def demo_env_def)
  have c: "cache_query demo_env ''h.local'' [types_CNAME] [] = []"
    by (simp add: demo_env_def demo_cache_def)
  have s: "scan_cache demo_env [] (query_qtype ?q) ''h.local'' (result ?q)
            = ((result ?q)\<lparr>msg_an := [demo_record ''h.local'' types_A ''192.0.2.9'' 60]\<rparr>, True)"
    by (simp add: scan_cache_def scan_step_def demo_env_def demo_cache_def demo_query_def
          demo_record_def rehome_def demo_message_def)
  have t: "query_qtype ?q = types_A" "msg_aa (result ?q) = 0" "msg_r (result ?q) = 0"
    by (simp_all add: demo_query_def demo_message_def)
  from query_cache_sets_aa [OF u c, of ?q] u c s t show ?thesis by simp
qed

section \<open>The next hop of \<open>query_remote\<close>\<close>

text \<open>What the two loops over the response compute.\<close>

lemma fold_an_step:
  "fold (an_step qt) an (res, cn, hr)
     = (res\<lparr>msg_an := msg_an res @ an\<rparr>,
        cn @ map rec_data (filter (\<lambda>r. rec_qtype r = types_CNAME) an),
        hr \<or> (\<exists>r\<in>set an. qt = types_CNAME \<or> rec_qtype r \<noteq> types_CNAME))"
  by (induction an arbitrary: res cn hr) (auto simp: an_step_def)

lemma fold_ns_step:
  "fold (ns_step rm qt) ns (res, hr, hns)
     = (if rm then res else res\<lparr>msg_ns := msg_ns res @ ns\<rparr>,
        hr \<or> (\<exists>r\<in>set ns. rec_qtype r = types_SOA \<or> qt = types_NS),
        hns \<or> (\<exists>r\<in>set ns. \<not> (rec_qtype r = types_SOA \<or> qt = types_NS)))"
  by (induction ns arbitrary: res hr hns) (auto simp: ns_step_def)

lemma classify_cname:
  "classify rm qt inter_res res = (res2, cname, hr, hns) \<Longrightarrow>
   cname = map rec_data (filter (\<lambda>r. rec_qtype r = types_CNAME) (msg_an inter_res))"
  by (auto simp: classify_def fold_an_step fold_ns_step split: if_splits)

lemma find_filter_Cons: "find P xs = Some x \<Longrightarrow> \<exists>ys. filter P xs = x # ys"
  by (induction xs) (auto split: if_splits)

text \<open>
  C8. When the response leaves \<open>has_result\<close> false and its answer section has a CNAME
  record, \<open>query_remote\<close> returns the pair of the first CNAME record's target and
  \<open>None\<close>; the loop of \<open>query\<close> then goes on with that name and with \<open>nameservers =
  None\<close>, for which \<open>query_remote_once\<close> takes the resolver's nameservers for the name.
\<close>

theorem query_remote_follows_cname:
  assumes "query_remote_once env n (query_qtype q) domain nameservers w
             = Some (Inr (Some inter_res), w1)"
    and "classify (recursive env) (query_qtype q) inter_res (result q)
             = (res2, cname, False, has_ns)"
    and "find (\<lambda>rec. rec_qtype rec = types_CNAME) (msg_an inter_res) = Some rec"
  shows "query_remote env n q domain nameservers w
           = Some (Inr (Some (rec_data rec, None)),
                   q\<lparr>result := (if \<not> recursive env
                                 then res2\<lparr>msg_ar := msg_ar res2 @ msg_ar inter_res\<rparr>
                                 else res2)\<rparr>, w1)
       \<and> (\<not> future_cancelled env w0 \<and> query_cache env q0 domain w0 = (Inr False, q1, w) \<and>
          q = q1\<lparr>from_cache := False\<rparr> \<and> \<not> future_cancelled env w
          \<longrightarrow> query_loop env (Suc n) q0 domain nameservers w0
               = query_loop env n
                   (q\<lparr>result := (if \<not> recursive env
                                  then res2\<lparr>msg_ar := msg_ar res2 @ msg_ar inter_res\<rparr>
                                  else res2)\<rparr>)
                   (rec_data rec) None w1)"
proof -
  from find_filter_Cons [OF assms(3)] obtain ys
    where "filter (\<lambda>rec. rec_qtype rec = types_CNAME) (msg_an inter_res) = rec # ys" ..
  with classify_cname [OF assms(2)] have c: "cname = rec_data rec # map rec_data ys" by simp
  have r: "query_remote env n q domain nameservers w
           = Some (Inr (Some (rec_data rec, None)),
                   q\<lparr>result := (if \<not> recursive env
                                 then res2\<lparr>msg_ar := msg_ar res2 @ msg_ar inter_res\<rparr>
                                 else res2)\<rparr>, w1)"
    using assms(1,2) c by (simp add: query_remote_def)
  show ?thesis
  proof (intro conjI impI)
    show "query_remote env n q domain nameservers w
           = Some (Inr (Some (rec_data rec, None)),
                   q\<lparr>result := (if \<not> recursive env
                                 then res2\<lparr>msg_ar := msg_ar res2 @ msg_ar inter_res\<rparr>
                                 else res2)\<rparr>, w1)"
      by (rule r)
  next
    assume a: "\<not> future_cancelled env w0 \<and> query_cache env q0 domain w0 = (Inr False, q1, w) \<and>
          q = q1\<lparr>from_cache := False\<rparr> \<and> \<not> future_cancelled env w"
    then have "query_remote env n (q1\<lparr>from_cache := False\<rparr>) domain nameservers w
           = Some (Inr (Some (rec_data rec, None)),
                   q\<lparr>result := (if \<not> recursive env
                                 then res2\<lparr>msg_ar := msg_ar res2 @ msg_ar inter_res\<rparr>
                                 else res2)\<rparr>, w1)"
      using r by simp
    with a show "query_loop env (Suc n) q0 domain nameservers w0
               = query_loop env n
                   (q\<lparr>result := (if \<not> recursive env
                                  then res2\<lparr>msg_ar := msg_ar res2 @ msg_ar inter_res\<rparr>
                                  else res2)\<rparr>)
                   (rec_data rec) None w1"
      by simp
  qed
qed

text \<open>
  The dictionary is read at keys of type \<open>types.A\<close> only, so the records of other
  types in the additional section do not matter.
\<close>

lemma nsip_map_fold_filter:
  "m k = m' k \<Longrightarrow> snd k = t \<Longrightarrow>
   fold (\<lambda>rec m. m((rec_name rec, rec_qtype rec) \<mapsto> rec_data rec)) ar m k
     = fold (\<lambda>rec m. m((rec_name rec, rec_qtype rec) \<mapsto> rec_data rec))
         (filter (\<lambda>r. rec_qtype r = t) ar) m' k"
proof (induction ar arbitrary: m m')
  case Nil
  then show ?case by simp
next
  case (Cons r ar)
  show ?case
  proof (cases "rec_qtype r = t")
    case True
    have "(m((rec_name r, rec_qtype r) \<mapsto> rec_data r)) k
            = (m'((rec_name r, rec_qtype r) \<mapsto> rec_data r)) k"
      using Cons.prems(1) by simp
    from Cons.IH [of "m((rec_name r, rec_qtype r) \<mapsto> rec_data r)"
                     "m'((rec_name r, rec_qtype r) \<mapsto> rec_data r)", OF this Cons.prems(2)] True
    show ?thesis by simp
  next
    case False
    with Cons.prems(2) have "(rec_name r, rec_qtype r) \<noteq> k" by auto
    then have "(m((rec_name r, rec_qtype r) \<mapsto> rec_data r)) k = m' k"
      using Cons.prems(1) by simp
    from Cons.IH [of "m((rec_name r, rec_qtype r) \<mapsto> rec_data r)" m', OF this Cons.prems(2)] False
    show ?thesis by simp
  qed
qed

lemma nsip_map_A_only:
  "nsip_map ar (h, types_A) = nsip_map (filter (\<lambda>r. rec_qtype r = types_A) ar) (h, types_A)"
  unfolding nsip_map_def by (rule nsip_map_fold_filter) simp_all

lemma nsip_map_fold_Some:
  "fold (\<lambda>rec m. m((rec_name rec, rec_qtype rec) \<mapsto> rec_data rec)) ar m k = Some ip \<Longrightarrow>
   m k = Some ip \<or> (\<exists>r\<in>set ar. (rec_name r, rec_qtype r) = k \<and> rec_data r = ip)"
proof (induction ar arbitrary: m)
  case Nil
  then show ?case by simp
next
  case (Cons r ar)
  from Cons.IH [of "m((rec_name r, rec_qtype r) \<mapsto> rec_data r)"] Cons.prems
  show ?case by (auto split: if_splits)
qed

lemma nsip_map_Some:
  "nsip_map ar (h, t) = Some ip \<Longrightarrow> \<exists>r\<in>set ar. rec_name r = h \<and> rec_qtype r = t \<and> rec_data r = ip"
  unfolding nsip_map_def by (drule nsip_map_fold_Some) auto

lemma nsips_fold_subset:
  "set (fold (nsips_step m) ns acc) \<subseteq> set acc \<union> {ip. \<exists>h. m (h, types_A) = Some ip}"
proof (induction ns arbitrary: acc)
  case Nil
  then show ?case by simp
next
  case (Cons r ns)
  have "set (nsips_step m r acc) \<subseteq> set acc \<union> {ip. \<exists>h. m (h, types_A) = Some ip}"
    by (auto simp: nsips_step_def split: option.splits)
  with Cons.IH [of "nsips_step m r acc"] show ?case by auto
qed

lemma nsips_step_A_only:
  "nsips_step (nsip_map ar) = nsips_step (nsip_map (filter (\<lambda>r. rec_qtype r = types_A) ar))"
  by (intro ext) (simp add: nsips_step_def nsip_map_A_only [of ar])

text \<open>
  C9. When \<open>query_remote\<close> descends a delegation it returns
  \<open>NameServers(nsips)\<close>; \<open>nsips\<close> is the same as if the additional section held its
  records of type A only, every address in it is the data of such a record, and an
  NS host for which the additional section has no record of type A adds nothing.
\<close>

theorem query_remote_glue_only_A:
  "(recursive env \<and>
    query_remote_once env n (query_qtype q) domain nameservers w = Some (Inr (Some inter_res), w1) \<and>
    classify (recursive env) (query_qtype q) inter_res (result q) = (res2, [], False, True) \<and>
    NameServers env (nsips_of (msg_ns inter_res) (msg_ar inter_res)) w1 = (nss, w2)
    \<longrightarrow> query_remote env n q domain nameservers w
          = Some (Inr (Some (domain, Some nss)), q\<lparr>result := res2\<rparr>, w2))
   \<and> nsips_of ns ar = nsips_of ns (filter (\<lambda>r. rec_qtype r = types_A) ar)
   \<and> set (nsips_of ns ar) \<subseteq> rec_data ` {r \<in> set ar. rec_qtype r = types_A}
   \<and> ((\<forall>r\<in>set ar. rec_name r = ns_host rec \<longrightarrow> rec_qtype r \<noteq> types_A)
      \<longrightarrow> nsips_step (nsip_map ar) rec nsips = nsips)"
proof (intro conjI impI)
  assume "recursive env \<and>
    query_remote_once env n (query_qtype q) domain nameservers w = Some (Inr (Some inter_res), w1) \<and>
    classify (recursive env) (query_qtype q) inter_res (result q) = (res2, [], False, True) \<and>
    NameServers env (nsips_of (msg_ns inter_res) (msg_ar inter_res)) w1 = (nss, w2)"
  then have r: "recursive env"
    and o: "query_remote_once env n (query_qtype q) domain nameservers w = Some (Inr (Some inter_res), w1)"
    and c: "classify True (query_qtype q) inter_res (result q) = (res2, [], False, True)"
    and s: "NameServers env (nsips_of (msg_ns inter_res) (msg_ar inter_res)) w1 = (nss, w2)"
    by auto
  then show "query_remote env n q domain nameservers w
          = Some (Inr (Some (domain, Some nss)), q\<lparr>result := res2\<rparr>, w2)"
    by (simp add: query_remote_def)
next
  show "nsips_of ns ar = nsips_of ns (filter (\<lambda>r. rec_qtype r = types_A) ar)"
    unfolding nsips_of_def by (simp only: nsips_step_A_only [of ar])
next
  show "set (nsips_of ns ar) \<subseteq> rec_data ` {r \<in> set ar. rec_qtype r = types_A}"
  proof
    fix ip assume "ip \<in> set (nsips_of ns ar)"
    with nsips_fold_subset [of "nsip_map ar" ns "[]"]
    obtain h where "nsip_map ar (h, types_A) = Some ip" by (auto simp: nsips_of_def)
    from nsip_map_Some [OF this] show "ip \<in> rec_data ` {r \<in> set ar. rec_qtype r = types_A}"
      by auto
  qed
next
  assume a: "\<forall>r\<in>set ar. rec_name r = ns_host rec \<longrightarrow> rec_qtype r \<noteq> types_A"
  have "nsip_map ar (ns_host rec, types_A) = None"
  proof (rule ccontr)
    assume "nsip_map ar (ns_host rec, types_A) \<noteq> None"
    then obtain ip where "nsip_map ar (ns_host rec, types_A) = Some ip" by auto
    from nsip_map_Some [OF this] a show False by auto
  qed
  then show "nsips_step (nsip_map ar) rec nsips = nsips" by (simp add: nsips_step_def)
qed


text \<open>The definitions that a remote query on the concrete environment unfolds.\<close>

lemmas remote_defs = demo_env_def demo_network_def demo_message_def demo_answer_def demo_record_def
  demo_query_def request_once_def try_body_def query_remote_once_def classify_def an_step_def
  ns_step_def

text \<open>The server \<open>s3\<close> answers the query for \<open>w.ex\<close> with a CNAME record to \<open>ex.net\<close>.\<close>

theorem query_remote_follows_cname_witness:
  "query_remote_once demo_env (Suc 0) types_A ''w.ex'' (Some [''s3'']) []
     = Some (Inr (Some (demo_message
          \<lparr>msg_qd := [\<lparr>q_name = ''w.ex'', q_qtype = types_A\<rparr>],
           msg_an := [demo_record ''w.ex'' types_CNAME ''ex.net'' 60]\<rparr>)), []) \<and>
   snd (classify (recursive demo_env) types_A
         (demo_message\<lparr>msg_qd := [\<lparr>q_name = ''w.ex'', q_qtype = types_A\<rparr>],
                        msg_an := [demo_record ''w.ex'' types_CNAME ''ex.net'' 60]\<rparr>)
         (result (demo_query ''w.ex'' types_A)))
     = ([''ex.net''], False, False) \<and>
   find (\<lambda>rec. rec_qtype rec = types_CNAME) [demo_record ''w.ex'' types_CNAME ''ex.net'' 60]
     = Some (demo_record ''w.ex'' types_CNAME ''ex.net'' 60) \<and>
   \<not> future_cancelled demo_env [] \<and>
   query_cache demo_env (demo_query ''w.ex'' types_A) ''w.ex'' []
     = (Inr False, demo_query ''w.ex'' types_A, []) \<and>
   map_option fst (query_remote demo_env (Suc 0) (demo_query ''w.ex'' types_A) ''w.ex'' (Some [''s3'']) [])
     = Some (Inr (Some (''ex.net'', None))) \<and>
   query_loop demo_env (Suc (Suc 0)) (demo_query ''w.ex'' types_A) ''w.ex'' (Some [''s3'']) []
     = query_loop demo_env (Suc 0)
         ((demo_query ''w.ex'' types_A)
            \<lparr>result := (result (demo_query ''w.ex'' types_A))
               \<lparr>msg_an := [demo_record ''w.ex'' types_CNAME ''ex.net'' 60]\<rparr>\<rparr>)
         ''ex.net'' None []"
proof -
  let ?q = "demo_query ''w.ex'' types_A"
  let ?rec = "demo_record ''w.ex'' types_CNAME ''ex.net'' 60"
  let ?resp = "demo_message\<lparr>msg_qd := [\<lparr>q_name = ''w.ex'', q_qtype = types_A\<rparr>], msg_an := [?rec]\<rparr>"
  let ?res2 = "(result ?q)\<lparr>msg_an := [?rec]\<rparr>"
  have t: "query_qtype ?q = types_A" by (simp add: demo_query_def)
  have o: "query_remote_once demo_env (Suc 0) (query_qtype ?q) ''w.ex'' (Some [''s3'']) []
             = Some (Inr (Some ?resp), [])"
    by (simp add: remote_defs)
  have c: "classify (recursive demo_env) (query_qtype ?q) ?resp (result ?q)
             = (?res2, [''ex.net''], False, False)"
    by (simp add: remote_defs)
  have f: "find (\<lambda>rec. rec_qtype rec = types_CNAME) (msg_an ?resp) = Some ?rec"
    by (simp add: demo_record_def demo_message_def)
  have n: "\<not> future_cancelled demo_env []" by (simp add: demo_env_def)
  have h: "query_cache demo_env ?q ''w.ex'' [] = (Inr False, ?q, [])"
    by (simp add: cache_defs)
  have e: "?q = ?q\<lparr>from_cache := False\<rparr>" by (simp add: demo_query_def)
  have r: "recursive demo_env" by (simp add: demo_env_def)
  have d: "rec_data ?rec = ''ex.net''" "msg_an ?resp = [?rec]"
    by (simp_all add: demo_record_def demo_message_def)
  from query_remote_follows_cname [OF o c f, where ?w0.0 = "[]" and ?q0.0 = ?q and ?q1.0 = ?q]
    n h e r
  have "query_remote demo_env (Suc 0) ?q ''w.ex'' (Some [''s3'']) []
          = Some (Inr (Some (rec_data ?rec, None)), ?q\<lparr>result := ?res2\<rparr>, [])"
    and "query_loop demo_env (Suc (Suc 0)) ?q ''w.ex'' (Some [''s3'']) []
          = query_loop demo_env (Suc 0) (?q\<lparr>result := ?res2\<rparr>) (rec_data ?rec) None []"
    by auto
  with o c f n h t d show ?thesis by simp
qed

text \<open>
  The server \<open>s3\<close> refers \<open>ex.org\<close> to \<open>n1.ex\<close>, with a glue record of type A, and to
  \<open>n2.ex\<close>, with a glue record of type AAAA only.
\<close>

theorem query_remote_glue_only_A_witness:
  "recursive demo_env \<and>
   query_remote_once demo_env (Suc 0) types_A ''ex.org'' (Some [''s3'']) []
     = Some (Inr (Some (demo_message
          \<lparr>msg_qd := [\<lparr>q_name = ''ex.org'', q_qtype = types_A\<rparr>],
           msg_ns := [demo_record ''ex.org'' types_NS ''n1.ex'' 60,
                      demo_record ''ex.org'' types_NS ''n2.ex'' 60],
           msg_ar := [demo_record ''n1.ex'' types_A ''192.0.2.1'' 60,
                      demo_record ''n2.ex'' types_AAAA ''2001:db8::2'' 60]\<rparr>)), []) \<and>
   nsips_of [demo_record ''ex.org'' types_NS ''n1.ex'' 60,
             demo_record ''ex.org'' types_NS ''n2.ex'' 60]
            [demo_record ''n1.ex'' types_A ''192.0.2.1'' 60,
             demo_record ''n2.ex'' types_AAAA ''2001:db8::2'' 60] = [''192.0.2.1''] \<and>
   map_option fst (query_remote demo_env (Suc 0) (demo_query ''ex.org'' types_A) ''ex.org''
                     (Some [''s3'']) [])
     = Some (Inr (Some (''ex.org'', Some [''192.0.2.1'']))) \<and>
   ns_host (demo_record ''ex.org'' types_NS ''n2.ex'' 60) = ''n2.ex'' \<and>
   nsips_step (nsip_map [demo_record ''n1.ex'' types_A ''192.0.2.1'' 60,
                         demo_record ''n2.ex'' types_AAAA ''2001:db8::2'' 60])
     (demo_record ''ex.org'' types_NS ''n2.ex'' 60) [''192.0.2.1''] = [''192.0.2.1'']"
proof -
  let ?q = "demo_query ''ex.org'' types_A"
  let ?ns = "[demo_record ''ex.org'' types_NS ''n1.ex'' 60, demo_record ''ex.org'' types_NS ''n2.ex'' 60]"
  let ?ar = "[demo_record ''n1.ex'' types_A ''192.0.2.1'' 60,
              demo_record ''n2.ex'' types_AAAA ''2001:db8::2'' 60]"
  let ?resp = "demo_message\<lparr>msg_qd := [\<lparr>q_name = ''ex.org'', q_qtype = types_A\<rparr>],
                 msg_ns := ?ns, msg_ar := ?ar\<rparr>"
  have t: "query_qtype ?q = types_A" by (simp add: demo_query_def)
  have r: "recursive demo_env" by (simp add: demo_env_def)
  have o: "query_remote_once demo_env (Suc 0) (query_qtype ?q) ''ex.org'' (Some [''s3'']) []
             = Some (Inr (Some ?resp), [])"
    by (simp add: remote_defs)
  have c: "classify (recursive demo_env) (query_qtype ?q) ?resp (result ?q)
             = (result ?q, [], False, True)"
    by (simp add: remote_defs)
  have i: "nsips_of ?ns ?ar = [''192.0.2.1'']"
    by (simp add: nsips_of_def nsips_step_def nsip_map_def ns_host_def demo_record_def)
  have s: "NameServers demo_env (nsips_of (msg_ns ?resp) (msg_ar ?resp)) [] = ([''192.0.2.1''], [])"
    using i by (simp add: demo_env_def demo_message_def)
  have a: "\<forall>r\<in>set ?ar. rec_name r = ns_host (demo_record ''ex.org'' types_NS ''n2.ex'' 60)
             \<longrightarrow> rec_qtype r \<noteq> types_A"
    by (simp add: ns_host_def demo_record_def)
  note T = query_remote_glue_only_A [of demo_env "Suc 0" ?q "''ex.org''" "Some [''s3'']" "[]" ?resp "[]"
             "result ?q" "[''192.0.2.1'']" "[]" ?ns ?ar "demo_record ''ex.org'' types_NS ''n2.ex'' 60"
             "[''192.0.2.1'']"]
  from T r o c s
  have q: "query_remote demo_env (Suc 0) ?q ''ex.org'' (Some [''s3'']) []
          = Some (Inr (Some (''ex.org'', Some [''192.0.2.1''])), ?q\<lparr>result := result ?q\<rparr>, [])"
    by blast
  from T a
  have n: "nsips_step (nsip_map ?ar) (demo_record ''ex.org'' types_NS ''n2.ex'' 60) [''192.0.2.1'']
             = [''192.0.2.1'']"
    by blast
  have h: "ns_host (demo_record ''ex.org'' types_NS ''n2.ex'' 60) = ''n2.ex''"
    by (simp add: ns_host_def demo_record_def)
  from r o i q h n t show ?thesis by simp
qed

section \<open>The loop of \<open>Query.query\<close>\<close>

text \<open>Nothing inside the loop touches \<open>self.future\<close>.\<close>

lemma cname_loop_future: "future (fst (snd (cname_loop env q recs w))) = future q"
  by (induction recs arbitrary: q w) (auto split: prod.splits sum.splits option.splits)

lemma query_cache_future: "query_cache env q domain w = (r, q', w') \<Longrightarrow> future q' = future q"
proof -
  assume a: "query_cache env q domain w = (r, q', w')"
  show ?thesis
  proof (cases "cache_query env domain [types_CNAME] w = []")
    case True
    with a show ?thesis
      by (auto simp: query_cache_def Let_def split: prod.splits if_splits)
  next
    case False
    let ?q2 = "q\<lparr>result := (if list_all (\<lambda>rec. rec_ttl rec < 0) (cache_query env domain [types_CNAME] w)
                 then ((result q)\<lparr>msg_an := msg_an (result q) @ map (rehome domain) (cache_query env domain [types_CNAME] w)\<rparr>)\<lparr>msg_aa := 1\<rparr>
                 else (result q)\<lparr>msg_an := msg_an (result q) @ map (rehome domain) (cache_query env domain [types_CNAME] w)\<rparr>)\<rparr>"
    from cname_loop_future [of env ?q2 "cache_query env domain [types_CNAME] w" w]
    have "future (fst (snd (cname_loop env ?q2 (cache_query env domain [types_CNAME] w) w))) = future q"
      by simp
    with a False show ?thesis
      by (auto simp: query_cache_def Let_def split: prod.splits if_splits option.splits)
  qed
qed

lemma query_remote_future:
  "query_remote env n q domain nss w = Some (r, q', w') \<Longrightarrow> future q' = future q"
  by (auto simp: query_remote_def Let_def
        split: option.splits prod.splits sum.splits if_splits list.splits)

lemma query_loop_future:
  "query_loop env fuel q domain nss w = Some (err, q', w') \<Longrightarrow> future q' = future q"
proof (induction fuel arbitrary: q domain nss w)
  case 0
  then show ?case by simp
next
  case (Suc n)
  show ?case
  proof (cases "future_cancelled env w")
    case True
    with Suc.prems have "query_loop env n q domain nss w = Some (err, q', w')" by simp
    then show ?thesis by (rule Suc.IH)
  next
    case nc: False
    obtain r q1 w1 where c: "query_cache env q domain w = (r, q1, w1)"
      by (cases "query_cache env q domain w")
    note f1 = query_cache_future [OF c]
    show ?thesis
    proof (cases r)
      case (Inl e)
      with Suc.prems nc c f1 show ?thesis by auto
    next
      case (Inr hit)
      show ?thesis
      proof (cases hit)
        case True
        with Suc.prems nc c f1 Inr show ?thesis by auto
      next
        case False
        show ?thesis
        proof (cases "future_cancelled env w1")
          case True
          with Suc.prems nc c Inr False
          have "query_loop env n (q1\<lparr>from_cache := False\<rparr>) domain nss w1 = Some (err, q', w')"
            by simp
          from Suc.IH [OF this] f1 show ?thesis by simp
        next
          case nc1: False
          from Suc.prems nc c Inr False nc1
          obtain r3 q3 w3 where
            demo_query_remote_answer: "query_remote env n (q1\<lparr>from_cache := False\<rparr>) domain nss w1 = Some (r3, q3, w3)"
            by (auto split: option.splits)
          from query_remote_future [OF demo_query_remote_answer] f1 have f3: "future q3 = future q" by simp
          show ?thesis
          proof (cases r3)
            case (Inl e)
            with Suc.prems nc c Inr False nc1 demo_query_remote_answer f3 show ?thesis by auto
          next
            case r3: (Inr nxt)
            show ?thesis
            proof (cases nxt)
              case None
              with Suc.prems nc c Inr False nc1 demo_query_remote_answer f3 r3 show ?thesis by auto
            next
              case (Some hop)
              obtain d' nss' where hop: "hop = (d', nss')" by (cases hop)
              with Suc.prems nc c Inr False nc1 demo_query_remote_answer r3 Some
              have "query_loop env n q3 d' nss' w3 = Some (err, q', w')" by simp
              from Suc.IH [OF this] f3 show ?thesis by simp
            qed
          qed
        qed
      qed
    qed
  qed
qed

text \<open>
  With a cancelled future both tests of an iteration fail, nothing is awaited, the
  world stays as it is and the next iteration is the same.
\<close>

lemma query_loop_cancelled:
  "future_cancelled env w \<Longrightarrow> query_loop env fuel q domain nss w = None"
  by (induction fuel) simp_all

text \<open>
  Fuel only bounds the number of iterations: a loop that has ended with some fuel ends
  in the same way with more.
\<close>

lemma request_remote_Suc:
  "request_remote env n nss req w = Some x \<Longrightarrow> request_remote env (Suc n) nss req w = Some x"
proof (induction n arbitrary: w)
  case 0
  then show ?case by simp
next
  case (Suc n)
  show ?case
  proof (cases "future_cancelled env w")
    case True
    with Suc.prems show ?thesis by simp
  next
    case nc: False
    obtain oa w1 where g: "ns_get env nss w = (oa, w1)" by (cases "ns_get env nss w")
    show ?thesis
    proof (cases oa)
      case None
      with Suc.prems nc g show ?thesis by simp
    next
      case (Some addr)
      obtain res w2 where t: "try_body env req addr w1 = (res, w2)"
        by (cases "try_body env req addr w1")
      show ?thesis
      proof (cases res)
        case (Inr m)
        with Suc.prems nc g Some t show ?thesis by simp
      next
        case (Inl e)
        show ?thesis
        proof (cases "is_server_error e")
          case False
          with Suc.prems nc g Some t Inl show ?thesis by simp
        next
          case True
          with Suc.prems nc g Some t Inl
          have "request_remote env n nss req (ns_fail env nss addr w2) = Some x" by simp
          from Suc.IH [OF this]
          have "request_remote env (Suc n) nss req (ns_fail env nss addr w2) = Some x" .
          with nc g Some t Inl True show ?thesis
            by (subst request_remote.simps) (simp del: request_remote.simps)
        qed
      qed
    qed
  qed
qed

lemma query_remote_once_Suc:
  assumes "query_remote_once env n qt domain nameservers w = Some x"
  shows "query_remote_once env (Suc n) qt domain nameservers w = Some x"
proof -
  obtain nss w0 where g: "(case nameservers of None \<Rightarrow> get_nameservers env domain w
                                               | Some nss \<Rightarrow> (nss, w)) = (nss, w0)"
    by (cases "case nameservers of None \<Rightarrow> get_nameservers env domain w | Some nss \<Rightarrow> (nss, w)")
  let ?req = "(new_message env)\<lparr>msg_qr := REQUEST, msg_qd := [\<lparr>q_name = domain, q_qtype = qt\<rparr>]\<rparr>"
  from assms g obtain r where r: "request_remote env n nss ?req w0 = Some r"
    by (auto simp: query_remote_once_def split: option.splits)
  note r' = request_remote_Suc [OF r]
  from assms show ?thesis
    unfolding query_remote_once_def g by (simp add: r r' del: request_remote.simps)
qed

lemma query_remote_Suc:
  assumes "query_remote env n q domain nameservers w = Some x"
  shows "query_remote env (Suc n) q domain nameservers w = Some x"
proof -
  from assms obtain r where r: "query_remote_once env n (query_qtype q) domain nameservers w = Some r"
    by (auto simp: query_remote_def split: option.splits)
  note r' = query_remote_once_Suc [OF r]
  from assms show ?thesis
    unfolding query_remote_def by (simp only: r r')
qed


text \<open>One iteration of the loop of \<open>query\<close>, by what its two steps do.\<close>

lemma query_loop_skip:
  "future_cancelled env w \<Longrightarrow>
   query_loop env (Suc n) q domain nss w = query_loop env n q domain nss w"
  by simp

lemma query_loop_cache_raises:
  "\<not> future_cancelled env w \<Longrightarrow> query_cache env q domain w = (Inl e, q1, w1) \<Longrightarrow>
   query_loop env (Suc n) q domain nss w = Some (handler e, q1, w1)"
  by simp

lemma query_loop_cache_hit:
  "\<not> future_cancelled env w \<Longrightarrow> query_cache env q domain w = (Inr True, q1, w1) \<Longrightarrow>
   query_loop env (Suc n) q domain nss w = Some (Finished, q1\<lparr>from_cache := True\<rparr>, w1)"
  by simp

lemma query_loop_cache_miss:
  "\<not> future_cancelled env w \<Longrightarrow> query_cache env q domain w = (Inr False, q1, w1) \<Longrightarrow>
   query_loop env (Suc n) q domain nss w =
     (if \<not> future_cancelled env w1
      then (case query_remote env n (q1\<lparr>from_cache := False\<rparr>) domain nss w1 of
              None \<Rightarrow> None
            | Some (Inl e, q3, w3) \<Rightarrow> Some (handler e, q3, w3)
            | Some (Inr None, q3, w3) \<Rightarrow> Some (Finished, q3, w3)
            | Some (Inr (Some (domain', nss')), q3, w3) \<Rightarrow> query_loop env n q3 domain' nss' w3)
      else query_loop env n (q1\<lparr>from_cache := False\<rparr>) domain nss w1)"
  by simp

lemma query_loop_Suc:
  "query_loop env n q domain nss w = Some x \<Longrightarrow> query_loop env (Suc n) q domain nss w = Some x"
proof (induction n arbitrary: q domain nss w)
  case 0
  then show ?case by simp
next
  case (Suc n)
  note p = Suc.prems
  show ?case
  proof (cases "future_cancelled env w")
    case True
    from p have "query_loop env n q domain nss w = Some x"
      by (simp only: query_loop_skip [OF True])
    from Suc.IH [OF this] show ?thesis by (simp only: query_loop_skip [OF True])
  next
    case nc: False
    obtain r q1 w1 where c: "query_cache env q domain w = (r, q1, w1)"
      by (cases "query_cache env q domain w")
    show ?thesis
    proof (cases r)
      case (Inl e)
      with c have c': "query_cache env q domain w = (Inl e, q1, w1)" by simp
      from p show ?thesis
        by (simp only: query_loop_cache_raises [OF nc c'])
    next
      case (Inr hit)
      show ?thesis
      proof (cases hit)
        case True
        with c Inr have c': "query_cache env q domain w = (Inr True, q1, w1)" by simp
        from p show ?thesis
          by (simp only: query_loop_cache_hit [OF nc c'])
      next
        case False
        with c Inr have c': "query_cache env q domain w = (Inr False, q1, w1)" by simp
        note m = query_loop_cache_miss [OF nc c']
        show ?thesis
        proof (cases "future_cancelled env w1")
          case True
          from p have "query_loop env n (q1\<lparr>from_cache := False\<rparr>) domain nss w1 = Some x"
            by (simp only: m True not_True_eq_False if_False)
          from Suc.IH [OF this] show ?thesis
            by (simp only: m True not_True_eq_False if_False)
        next
          case nc1: False
          from p obtain y where
            qr: "query_remote env n (q1\<lparr>from_cache := False\<rparr>) domain nss w1 = Some y"
            by (simp only: m nc1 not_False_eq_True if_True split: option.splits) auto
          note qr' = query_remote_Suc [OF qr]
          obtain r3 q3 w3 where y: "y = (r3, q3, w3)" by (cases y)
          show ?thesis
          proof (cases r3)
            case (Inl e)
            from p show ?thesis
              by (simp only: m nc1 not_False_eq_True if_True qr qr' y Inl option.case prod.case sum.case)
          next
            case r3: (Inr nxt)
            show ?thesis
            proof (cases nxt)
              case None
              from p show ?thesis
                by (simp only: m nc1 not_False_eq_True if_True qr qr' y r3 None option.case prod.case sum.case)
            next
              case (Some hop)
              obtain d' nss' where hop: "hop = (d', nss')" by (cases hop)
              from p have "query_loop env n q3 d' nss' w3 = Some x"
                by (simp only: m nc1 not_False_eq_True if_True qr y r3 Some hop option.case prod.case sum.case)
              from Suc.IH [OF this] show ?thesis
                by (simp only: m nc1 not_False_eq_True if_True qr' y r3 Some hop option.case prod.case sum.case)
            qed
          qed
        qed
      qed
    qed
  qed
qed

lemma query_loop_more_fuel:
  "query_loop env n q domain nss w = Some x \<Longrightarrow> query_loop env (n + k) q domain nss w = Some x"
  by (induction k) (simp_all add: query_loop_Suc del: query_loop.simps)


text \<open>
  Only an exception that is not an \<open>Exception\<close> leaves the \<open>try\<close> statement, and
  then the future is as it was.
\<close>

lemma query_loop_uncaught:
  "query_loop env fuel q domain nss w = Some (Uncaught e, q0, w0) \<Longrightarrow> \<not> is_Exception e"
proof (induction fuel arbitrary: q domain nss w)
  case 0
  then show ?case by simp
next
  case (Suc m)
  show ?case
  proof
    assume ex: "is_Exception e"
    from Suc.prems ex Suc.IH show False
      by (auto simp: handler_def split: if_splits prod.splits sum.splits option.splits)
  qed
qed

lemma query_raises_only_uncaught:
  assumes a: "future q = Pending \<and> query env fuel q w = Some (Inl e', q'', w'')"
  shows "\<not> is_Exception e' \<and> future q'' = Pending"
proof -
  from a obtain ending q0 w0 where l: "query_loop env fuel q (fqdn q) None w = Some (ending, q0, w0)"
    by (auto simp: query_def split: option.splits)
  from query_loop_future [OF l] a have f: "future q0 = Pending" by simp
  have u: "ending = Uncaught e'" and q0: "q'' = q0"
  proof -
    show "ending = Uncaught e'"
    proof (cases ending)
      case Finished
      with a l f show ?thesis by (auto simp: query_def settle_def split: if_splits)
    next
      case (Caught x)
      with a l f show ?thesis by (auto simp: query_def settle_def split: if_splits)
    next
      case (Uncaught x)
      with a l f show ?thesis by (auto simp: query_def)
    qed
    then show "q'' = q0" using a l by (auto simp: query_def)
  qed
  from query_loop_uncaught [OF l [unfolded u]] f q0
  show "\<not> is_Exception e' \<and> future q'' = Pending" by simp
qed

text \<open>
  C5, as the code has it. In any iteration of the loop with the future not cancelled:
  an exception raised by \<open>query_cache\<close> or by \<open>query_remote\<close> ends the loop, caught by
  the handler when it is an \<open>Exception\<close> and uncaught otherwise; a cache hit and a plain
  return of \<open>query_remote\<close> end the loop without an exception; a next hop continues
  with the next iteration; and a loop that has ended ends in the same way with more
  fuel. For a \<open>Query\<close> whose future is pending, when the loop has ended and the future
  is not cancelled, \<open>query\<close> returns with the future fulfilled with the pair of the
  accumulated message and \<open>from_cache\<close>, or rejected with the exception that was
  caught, and raises only an uncaught exception; whatever \<open>query\<close> raises is not an
  \<open>Exception\<close>, and the future is then still pending.
\<close>

theorem query_settles_future:
  "(\<not> future_cancelled env w \<and> query_cache env q domain w = (Inl e, q1, w1) \<longrightarrow>
      query_loop env (Suc n) q domain nss w
        = Some (if is_Exception e then Caught e else Uncaught e, q1, w1))
   \<and> (\<not> future_cancelled env w \<and> query_cache env q domain w = (Inr True, q1, w1) \<longrightarrow>
      query_loop env (Suc n) q domain nss w = Some (Finished, q1\<lparr>from_cache := True\<rparr>, w1))
   \<and> (\<not> future_cancelled env w \<and> query_cache env q domain w = (Inr False, q1, w1) \<and>
        \<not> future_cancelled env w1 \<and>
        query_remote env n (q1\<lparr>from_cache := False\<rparr>) domain nss w1 = Some (Inl e, q3, w3) \<longrightarrow>
      query_loop env (Suc n) q domain nss w
        = Some (if is_Exception e then Caught e else Uncaught e, q3, w3))
   \<and> (\<not> future_cancelled env w \<and> query_cache env q domain w = (Inr False, q1, w1) \<and>
        \<not> future_cancelled env w1 \<and>
        query_remote env n (q1\<lparr>from_cache := False\<rparr>) domain nss w1 = Some (Inr None, q3, w3) \<longrightarrow>
      query_loop env (Suc n) q domain nss w = Some (Finished, q3, w3))
   \<and> (\<not> future_cancelled env w \<and> query_cache env q domain w = (Inr False, q1, w1) \<and>
        \<not> future_cancelled env w1 \<and>
        query_remote env n (q1\<lparr>from_cache := False\<rparr>) domain nss w1
          = Some (Inr (Some (domain', nss')), q3, w3) \<longrightarrow>
      query_loop env (Suc n) q domain nss w = query_loop env n q3 domain' nss' w3)
   \<and> (query_loop env fuel q domain nss w = Some x \<longrightarrow>
      query_loop env (fuel + k) q domain nss w = Some x)
   \<and> (future q = Pending \<and> query_loop env fuel q (fqdn q) None w = Some (ending, q', w') \<and>
        \<not> future_cancelled env w' \<longrightarrow>
      query env fuel q w
        = (case ending of
             Finished \<Rightarrow> Some (Inr (), q'\<lparr>future := Result (result q', from_cache q')\<rparr>, w')
           | Caught e \<Rightarrow> Some (Inr (), q'\<lparr>future := Exception e\<rparr>, w')
           | Uncaught e \<Rightarrow> Some (Inl e, q', w')))
   \<and> (future q = Pending \<and> query env fuel q w = Some (Inl e', q'', w'') \<longrightarrow>
      \<not> is_Exception e' \<and> future q'' = Pending)"
proof (intro conjI impI)
  assume "\<not> future_cancelled env w \<and> query_cache env q domain w = (Inl e, q1, w1)"
  then show "query_loop env (Suc n) q domain nss w
        = Some (if is_Exception e then Caught e else Uncaught e, q1, w1)"
    by (simp add: handler_def)
next
  assume "\<not> future_cancelled env w \<and> query_cache env q domain w = (Inr True, q1, w1)"
  then show "query_loop env (Suc n) q domain nss w = Some (Finished, q1\<lparr>from_cache := True\<rparr>, w1)"
    by simp
next
  assume "\<not> future_cancelled env w \<and> query_cache env q domain w = (Inr False, q1, w1) \<and>
        \<not> future_cancelled env w1 \<and>
        query_remote env n (q1\<lparr>from_cache := False\<rparr>) domain nss w1 = Some (Inl e, q3, w3)"
  then show "query_loop env (Suc n) q domain nss w
        = Some (if is_Exception e then Caught e else Uncaught e, q3, w3)"
    by (simp add: handler_def)
next
  assume "\<not> future_cancelled env w \<and> query_cache env q domain w = (Inr False, q1, w1) \<and>
        \<not> future_cancelled env w1 \<and>
        query_remote env n (q1\<lparr>from_cache := False\<rparr>) domain nss w1 = Some (Inr None, q3, w3)"
  then show "query_loop env (Suc n) q domain nss w = Some (Finished, q3, w3)"
    by simp
next
  assume "\<not> future_cancelled env w \<and> query_cache env q domain w = (Inr False, q1, w1) \<and>
        \<not> future_cancelled env w1 \<and>
        query_remote env n (q1\<lparr>from_cache := False\<rparr>) domain nss w1
          = Some (Inr (Some (domain', nss')), q3, w3)"
  then show "query_loop env (Suc n) q domain nss w = query_loop env n q3 domain' nss' w3"
    by simp
next
  assume "query_loop env fuel q domain nss w = Some x"
  then show "query_loop env (fuel + k) q domain nss w = Some x"
    by (rule query_loop_more_fuel)
next
  assume a: "future q = Pending \<and> query_loop env fuel q (fqdn q) None w = Some (ending, q', w') \<and>
        \<not> future_cancelled env w'"
  then have l: "query_loop env fuel q (fqdn q) None w = Some (ending, q', w')" by simp
  from query_loop_future [OF l] a have "future q' = Pending" by simp
  with a show "query env fuel q w
        = (case ending of
             Finished \<Rightarrow> Some (Inr (), q'\<lparr>future := Result (result q', from_cache q')\<rparr>, w')
           | Caught e \<Rightarrow> Some (Inr (), q'\<lparr>future := Exception e\<rparr>, w')
           | Uncaught e \<Rightarrow> Some (Inl e, q', w'))"
    by (cases ending) (simp_all add: query_def settle_def)
next
  assume "future q = Pending \<and> query env fuel q w = Some (Inl e', q'', w'')"
  from query_raises_only_uncaught [OF this] show "\<not> is_Exception e'" by simp
next
  assume "future q = Pending \<and> query env fuel q w = Some (Inl e', q'', w'')"
  from query_raises_only_uncaught [OF this] show "future q'' = Pending" by simp
qed

text \<open>
  Two runs on the concrete environment, evaluated step by step. The query for \<open>a.b\<close>
  is answered by \<open>s3\<close> after \<open>s1\<close> and \<open>s2\<close> have failed.
\<close>

lemma demo_request_remote_answer: "request_remote demo_env (Suc (Suc (Suc 0))) [''s1'', ''s2'', ''s3''] (demo_request ''a.b'') []
   = Some (Inr (Some (demo_message\<lparr>msg_qd := [\<lparr>q_name = ''a.b'', q_qtype = types_A\<rparr>],
         msg_an := [demo_record ''a.b'' types_A ''192.0.2.7'' 60]\<rparr>)), [''s1'', ''s2''])"
  by (simp add: demo_defs)


lemma demo_query_remote_once_answer: "query_remote_once demo_env (Suc (Suc (Suc 0))) types_A ''a.b'' None []
   = Some (Inr (Some (demo_message\<lparr>msg_qd := [\<lparr>q_name = ''a.b'', q_qtype = types_A\<rparr>],
         msg_an := [demo_record ''a.b'' types_A ''192.0.2.7'' 60]\<rparr>)), [''s1'', ''s2''])"
proof -
  have g: "get_nameservers demo_env ''a.b'' [] = ([''s1'', ''s2'', ''s3''], [])"
    and m: "(new_message demo_env)\<lparr>msg_qr := REQUEST, msg_qd := [\<lparr>q_name = ''a.b'', q_qtype = types_A\<rparr>]\<rparr>
              = demo_request ''a.b''"
    and c: "cache_message demo_env x [''s1'', ''s2''] = (Inr (), [''s1'', ''s2''])" for x
    by (simp_all add: demo_env_def demo_request_def)
  show ?thesis
    unfolding query_remote_once_def by (simp only: g m demo_request_remote_answer c option.case prod.case sum.case Let_def)
qed

lemma demo_query_remote_answer: "query_remote demo_env (Suc (Suc (Suc 0))) (demo_query ''a.b'' types_A) ''a.b'' None []
   = Some (Inr None, (demo_query ''a.b'' types_A)
               \<lparr>result := (result (demo_query ''a.b'' types_A))
                  \<lparr>msg_an := [demo_record ''a.b'' types_A ''192.0.2.7'' 60]\<rparr>\<rparr>, [''s1'', ''s2''])"
proof -
  have t: "query_qtype (demo_query ''a.b'' types_A) = types_A" by (simp add: demo_query_def)
  have c: "classify True types_A
             (demo_message\<lparr>msg_qd := [\<lparr>q_name = ''a.b'', q_qtype = types_A\<rparr>],
                msg_an := [demo_record ''a.b'' types_A ''192.0.2.7'' 60]\<rparr>)
             (result (demo_query ''a.b'' types_A))
           = ((result (demo_query ''a.b'' types_A))\<lparr>msg_an := [demo_record ''a.b'' types_A ''192.0.2.7'' 60]\<rparr>,
              [], True, False)"
    by (simp add: remote_defs)
  have r: "recursive demo_env" by (simp add: demo_env_def)
  show ?thesis
    unfolding query_remote_def by (simp add: t demo_query_remote_once_answer c r)
qed

lemma demo_query_cache_miss: "query_cache demo_env (demo_query ''a.b'' types_A) ''a.b'' [] = (Inr False, demo_query ''a.b'' types_A, [])"
  by (simp add: cache_defs)

lemma demo_query_loop_answer: "query_loop demo_env (Suc (Suc (Suc (Suc 0)))) (demo_query ''a.b'' types_A) ''a.b'' None []
   = Some (Finished, (demo_query ''a.b'' types_A)
               \<lparr>result := (result (demo_query ''a.b'' types_A))
                  \<lparr>msg_an := [demo_record ''a.b'' types_A ''192.0.2.7'' 60]\<rparr>\<rparr>, [''s1'', ''s2''])"
proof -
  have n: "\<not> future_cancelled demo_env w" for w by (simp add: demo_env_def)
  have e: "(demo_query ''a.b'' types_A)\<lparr>from_cache := False\<rparr> = demo_query ''a.b'' types_A"
    by (simp add: demo_query_def)
  show ?thesis by (simp add: n demo_query_cache_miss e demo_query_remote_answer)
qed


text \<open>
  The query for \<open>ex.org\<close> is referred to the address \<open>192.0.2.1\<close>, whose response does
  not parse: the loop ends with an exception.
\<close>

lemma demo_not_cancelled: "\<not> future_cancelled demo_env w"
  by (simp add: demo_env_def)

lemma demo_referral_cache_miss: "query_cache demo_env (demo_query ''ex.org'' types_A) ''ex.org'' w
   = (Inr False, demo_query ''ex.org'' types_A, w)"
  by (simp add: cache_defs)

lemma demo_referral_request: "request_remote demo_env (Suc (Suc (Suc 0))) [''s1'', ''s2'', ''s3''] (demo_request ''ex.org'') []
   = Some (Inr (Some (demo_message\<lparr>msg_qd := [\<lparr>q_name = ''ex.org'', q_qtype = types_A\<rparr>],
         msg_ns := [demo_record ''ex.org'' types_NS ''n1.ex'' 60,
                    demo_record ''ex.org'' types_NS ''n2.ex'' 60],
         msg_ar := [demo_record ''n1.ex'' types_A ''192.0.2.1'' 60,
                    demo_record ''n2.ex'' types_AAAA ''2001:db8::2'' 60]\<rparr>)), [''s1'', ''s2''])"
  by (simp add: demo_defs)

lemma demo_referral_second_request: "request_remote demo_env (Suc n) [''192.0.2.1''] (demo_request ''ex.org'') [''s1'', ''s2'']
   = Some (Inl (UnboundLocalError ''e''), [''s1'', ''s2''])"
  by (simp add: demo_defs)

lemma demo_query_remote_once:
  "query_remote_once demo_env n types_A domain nameservers w
     = (case request_remote demo_env n (case nameservers of None \<Rightarrow> [''s1'', ''s2'', ''s3''] | Some nss \<Rightarrow> nss)
               (demo_request domain) w of
          None \<Rightarrow> None
        | Some (Inl e, w1) \<Rightarrow> Some (Inl e, w1)
        | Some (Inr inter_res, w1) \<Rightarrow> Some (Inr inter_res, w1))"
  by (cases nameservers)
     (simp_all add: query_remote_once_def demo_env_def demo_request_def
        split: option.splits sum.splits prod.splits)

lemma demo_referral_hop: "query_remote demo_env (Suc (Suc (Suc 0))) (demo_query ''ex.org'' types_A) ''ex.org'' None []
   = Some (Inr (Some (''ex.org'', Some [''192.0.2.1''])), demo_query ''ex.org'' types_A, [''s1'', ''s2''])"
proof -
  let ?ns = "[demo_record ''ex.org'' types_NS ''n1.ex'' 60, demo_record ''ex.org'' types_NS ''n2.ex'' 60]"
  let ?ar = "[demo_record ''n1.ex'' types_A ''192.0.2.1'' 60,
              demo_record ''n2.ex'' types_AAAA ''2001:db8::2'' 60]"
  let ?resp = "demo_message\<lparr>msg_qd := [\<lparr>q_name = ''ex.org'', q_qtype = types_A\<rparr>],
                 msg_ns := ?ns, msg_ar := ?ar\<rparr>"
  have t: "query_qtype (demo_query ''ex.org'' types_A) = types_A" by (simp add: demo_query_def)
  have c: "classify True types_A ?resp (result (demo_query ''ex.org'' types_A))
             = (result (demo_query ''ex.org'' types_A), [], False, True)"
    by (simp add: remote_defs)
  have r: "recursive demo_env" by (simp add: demo_env_def)
  have i: "nsips_of (msg_ns ?resp) (msg_ar ?resp) = [''192.0.2.1'']"
    by (simp add: nsips_of_def nsips_step_def nsip_map_def ns_host_def demo_record_def demo_message_def)
  have i': "nsips_of ?ns ?ar = [''192.0.2.1'']"
    by (simp add: nsips_of_def nsips_step_def nsip_map_def ns_host_def demo_record_def)
  have s: "NameServers demo_env x w = (x, w)" for x w by (simp add: demo_env_def)
  have e: "(demo_query ''ex.org'' types_A)\<lparr>result := result (demo_query ''ex.org'' types_A)\<rparr>
             = demo_query ''ex.org'' types_A" by simp
  show ?thesis
    unfolding query_remote_def by (simp add: t demo_query_remote_once demo_referral_request c r i i' s e del: request_remote.simps)
qed

lemma demo_referral_second_hop: "query_remote demo_env (Suc n) (demo_query ''ex.org'' types_A) ''ex.org''
     (Some [''192.0.2.1'']) [''s1'', ''s2'']
   = Some (Inl (UnboundLocalError ''e''), demo_query ''ex.org'' types_A, [''s1'', ''s2''])"
proof -
  have t: "query_qtype (demo_query ''ex.org'' types_A) = types_A" by (simp add: demo_query_def)
  show ?thesis
    unfolding query_remote_def by (simp add: t demo_query_remote_once demo_referral_second_request del: request_remote.simps)
qed

lemma demo_referral_loop: "query_loop demo_env (Suc (Suc (Suc (Suc 0)))) (demo_query ''ex.org'' types_A) ''ex.org'' None []
   = Some (Caught (UnboundLocalError ''e''), demo_query ''ex.org'' types_A, [''s1'', ''s2''])"
proof -
  have e: "(demo_query ''ex.org'' types_A)\<lparr>from_cache := False\<rparr> = demo_query ''ex.org'' types_A"
    by (simp add: demo_query_def)
  show ?thesis by (simp add: demo_not_cancelled demo_referral_cache_miss e demo_referral_hop demo_referral_second_hop handler_def is_Exception_def del: request_remote.simps)
qed


text \<open>Further runs on the concrete environments, one for each way an iteration can go.\<close>

lemma demo_cname_cache_raises:
  "query_cache demo_env_cname_fails (demo_query ''c.local'' types_A) ''c.local'' []
     = (Inl (OtherException ''no route''),
        (demo_query ''c.local'' types_A)
          \<lparr>result := (result (demo_query ''c.local'' types_A))
             \<lparr>msg_an := [demo_record ''c.local'' types_CNAME ''h.local'' 60]\<rparr>\<rparr>, [])"
  by (simp add: cache_defs demo_env_cname_fails_def)

lemma demo_cache_hit:
  "query_cache demo_env (demo_query ''h.local'' types_A) ''h.local'' []
     = (Inr True,
        (demo_query ''h.local'' types_A)
          \<lparr>result := (result (demo_query ''h.local'' types_A))
             \<lparr>msg_an := [demo_record ''h.local'' types_A ''192.0.2.9'' 60], msg_aa := 1\<rparr>\<rparr>, [])"
  by (simp add: cache_defs)

lemma demo_query_from_cache:
  "(demo_query d t)\<lparr>from_cache := False\<rparr> = demo_query d t"
  by (simp add: demo_query_def)

lemma demo_direct_request:
  "request_remote demo_env (Suc n) [''s3''] (demo_request ''a.b'') []
     = Some (Inr (Some (demo_message\<lparr>msg_qd := [\<lparr>q_name = ''a.b'', q_qtype = types_A\<rparr>],
          msg_an := [demo_record ''a.b'' types_A ''192.0.2.7'' 60]\<rparr>)), [])"
  "request_remote demo_env (Suc n) [''s5''] (demo_request ''a.b'') []
     = Some (Inl (UnboundLocalError ''e''), [])"
  "request_remote demo_env (Suc n) [''s3''] (demo_request ''w.ex'') []
     = Some (Inr (Some (demo_message\<lparr>msg_qd := [\<lparr>q_name = ''w.ex'', q_qtype = types_A\<rparr>],
          msg_an := [demo_record ''w.ex'' types_CNAME ''ex.net'' 60]\<rparr>)), [])"
  by (simp_all add: demo_defs)

lemma demo_direct_answer:
  "query_remote demo_env (Suc n) (demo_query ''a.b'' types_A) ''a.b'' (Some [''s3'']) []
     = Some (Inr None,
             (demo_query ''a.b'' types_A)
               \<lparr>result := (result (demo_query ''a.b'' types_A))
                  \<lparr>msg_an := [demo_record ''a.b'' types_A ''192.0.2.7'' 60]\<rparr>\<rparr>, [])"
proof -
  have t: "query_qtype (demo_query ''a.b'' types_A) = types_A" by (simp add: demo_query_def)
  have c: "classify True types_A
             (demo_message\<lparr>msg_qd := [\<lparr>q_name = ''a.b'', q_qtype = types_A\<rparr>],
                msg_an := [demo_record ''a.b'' types_A ''192.0.2.7'' 60]\<rparr>)
             (result (demo_query ''a.b'' types_A))
           = ((result (demo_query ''a.b'' types_A))\<lparr>msg_an := [demo_record ''a.b'' types_A ''192.0.2.7'' 60]\<rparr>,
              [], True, False)"
    by (simp add: remote_defs)
  have r: "recursive demo_env" by (simp add: demo_env_def)
  show ?thesis
    unfolding query_remote_def
    by (simp add: t demo_query_remote_once demo_direct_request c r del: request_remote.simps)
qed

lemma demo_direct_error:
  "query_remote demo_env (Suc n) (demo_query ''a.b'' types_A) ''a.b'' (Some [''s5'']) []
     = Some (Inl (UnboundLocalError ''e''), demo_query ''a.b'' types_A, [])"
proof -
  have t: "query_qtype (demo_query ''a.b'' types_A) = types_A" by (simp add: demo_query_def)
  show ?thesis
    unfolding query_remote_def
    by (simp add: t demo_query_remote_once demo_direct_request del: request_remote.simps)
qed

lemma demo_cname_cache_miss:
  "query_cache demo_env (demo_query ''w.ex'' types_A) ''w.ex'' [] = (Inr False, demo_query ''w.ex'' types_A, [])"
  by (simp add: cache_defs)

lemma demo_cname_hop:
  "query_remote demo_env (Suc n) (demo_query ''w.ex'' types_A) ''w.ex'' (Some [''s3'']) []
     = Some (Inr (Some (''ex.net'', None)),
             (demo_query ''w.ex'' types_A)
               \<lparr>result := (result (demo_query ''w.ex'' types_A))
                  \<lparr>msg_an := [demo_record ''w.ex'' types_CNAME ''ex.net'' 60]\<rparr>\<rparr>, [])"
proof -
  have t: "query_qtype (demo_query ''w.ex'' types_A) = types_A" by (simp add: demo_query_def)
  have c: "classify True types_A
             (demo_message\<lparr>msg_qd := [\<lparr>q_name = ''w.ex'', q_qtype = types_A\<rparr>],
                msg_an := [demo_record ''w.ex'' types_CNAME ''ex.net'' 60]\<rparr>)
             (result (demo_query ''w.ex'' types_A))
           = ((result (demo_query ''w.ex'' types_A))\<lparr>msg_an := [demo_record ''w.ex'' types_CNAME ''ex.net'' 60]\<rparr>,
              [''ex.net''], False, False)"
    by (simp add: remote_defs)
  have r: "recursive demo_env" by (simp add: demo_env_def)
  show ?thesis
    unfolding query_remote_def
    by (simp add: t demo_query_remote_once demo_direct_request c r del: request_remote.simps)
qed

lemma demo_cname_target_loop:
  "query_loop demo_env (Suc (Suc (Suc (Suc 0))))
     ((demo_query ''w.ex'' types_A)
        \<lparr>result := (result (demo_query ''w.ex'' types_A))
           \<lparr>msg_an := [demo_record ''w.ex'' types_CNAME ''ex.net'' 60]\<rparr>\<rparr>)
     ''ex.net'' None []
   = Some (Finished,
           (demo_query ''w.ex'' types_A)
             \<lparr>result := (result (demo_query ''w.ex'' types_A))
                \<lparr>msg_an := [demo_record ''w.ex'' types_CNAME ''ex.net'' 60,
                             demo_record ''ex.net'' types_A ''192.0.2.7'' 60]\<rparr>\<rparr>,
           [''s1'', ''s2''])"
proof -
  let ?q3 = "(demo_query ''w.ex'' types_A)
        \<lparr>result := (result (demo_query ''w.ex'' types_A))
           \<lparr>msg_an := [demo_record ''w.ex'' types_CNAME ''ex.net'' 60]\<rparr>\<rparr>"
  let ?resp = "demo_message\<lparr>msg_qd := [\<lparr>q_name = ''ex.net'', q_qtype = types_A\<rparr>],
                 msg_an := [demo_record ''ex.net'' types_A ''192.0.2.7'' 60]\<rparr>"
  have t: "query_qtype ?q3 = types_A" by (simp add: demo_query_def)
  have m: "query_cache demo_env ?q3 ''ex.net'' [] = (Inr False, ?q3, [])"
    by (simp add: cache_defs)
  have f: "?q3\<lparr>from_cache := False\<rparr> = ?q3" by (simp add: demo_query_def)
  have rr: "request_remote demo_env (Suc (Suc (Suc 0))) [''s1'', ''s2'', ''s3''] (demo_request ''ex.net'') []
              = Some (Inr (Some ?resp), [''s1'', ''s2''])"
    by (simp add: demo_defs)
  have c: "classify True types_A ?resp
             ((result (demo_query ''w.ex'' types_A))\<lparr>msg_an := [demo_record ''w.ex'' types_CNAME ''ex.net'' 60]\<rparr>)
             = ((result (demo_query ''w.ex'' types_A))
                  \<lparr>msg_an := [demo_record ''w.ex'' types_CNAME ''ex.net'' 60,
                               demo_record ''ex.net'' types_A ''192.0.2.7'' 60]\<rparr>,
                [], True, False)"
    by (simp add: remote_defs)
  have r: "recursive demo_env" by (simp add: demo_env_def)
  have qr: "query_remote demo_env (Suc (Suc (Suc 0))) ?q3 ''ex.net'' None []
              = Some (Inr None,
                      (demo_query ''w.ex'' types_A)
                        \<lparr>result := (result (demo_query ''w.ex'' types_A))
                           \<lparr>msg_an := [demo_record ''w.ex'' types_CNAME ''ex.net'' 60,
                                        demo_record ''ex.net'' types_A ''192.0.2.7'' 60]\<rparr>\<rparr>,
                      [''s1'', ''s2''])"
    unfolding query_remote_def
    by (simp add: t demo_query_remote_once rr c r del: request_remote.simps)
  show ?thesis
    by (simp add: demo_not_cancelled m f qr del: request_remote.simps)
qed

lemma demo_task_cancelled_loop:
  "query_loop demo_env_task_cancelled (Suc (Suc 0)) (demo_query ''a.b'' types_A) ''a.b'' None []
     = Some (Uncaught CancelledError, demo_query ''a.b'' types_A, [])"
proof -
  have n: "\<not> future_cancelled demo_env_task_cancelled w" for w
    by (simp add: demo_env_task_cancelled_def demo_env_def)
  have m: "query_cache demo_env_task_cancelled (demo_query ''a.b'' types_A) ''a.b'' []
             = (Inr False, demo_query ''a.b'' types_A, [])"
    by (simp add: cache_defs demo_env_task_cancelled_def)
  have rr: "request_remote demo_env_task_cancelled (Suc 0) [''s1'', ''s2'', ''s3''] (demo_request ''a.b'') []
              = Some (Inl CancelledError, [])"
    by (simp add: demo_defs demo_env_task_cancelled_def)
  have g: "get_nameservers demo_env_task_cancelled ''a.b'' [] = ([''s1'', ''s2'', ''s3''], [])"
    and nm: "(new_message demo_env_task_cancelled)
               \<lparr>msg_qr := REQUEST, msg_qd := [\<lparr>q_name = ''a.b'', q_qtype = types_A\<rparr>]\<rparr>
              = demo_request ''a.b''"
    by (simp_all add: demo_env_task_cancelled_def demo_env_def demo_request_def)
  have t: "query_qtype (demo_query ''a.b'' types_A) = types_A" by (simp add: demo_query_def)
  have ro: "query_remote_once demo_env_task_cancelled (Suc 0) types_A ''a.b'' None []
              = Some (Inl CancelledError, [])"
    unfolding query_remote_once_def
    by (simp only: g nm rr option.case prod.case sum.case Let_def)
  have qr: "query_remote demo_env_task_cancelled (Suc 0) (demo_query ''a.b'' types_A) ''a.b'' None []
              = Some (Inl CancelledError, demo_query ''a.b'' types_A, [])"
    unfolding query_remote_def by (simp add: t ro)
  show ?thesis
    by (simp add: n m demo_query_from_cache qr handler_def is_Exception_def del: request_remote.simps)
qed

text \<open>
  An exception of the cache step and one of the remote step are caught and reject the
  future; a hit and an answer fulfil it; a CNAME is followed to the answer; the
  cancellation of the task leaves \<open>query\<close> and the future pending.
\<close>

theorem query_settles_future_witness:
  "\<not> future_cancelled demo_env_cname_fails [] \<and>
   query_cache demo_env_cname_fails (demo_query ''c.local'' types_A) ''c.local'' []
     = (Inl (OtherException ''no route''),
        (demo_query ''c.local'' types_A)
          \<lparr>result := (result (demo_query ''c.local'' types_A))
             \<lparr>msg_an := [demo_record ''c.local'' types_CNAME ''h.local'' 60]\<rparr>\<rparr>, []) \<and>
   query_loop demo_env_cname_fails (Suc 0) (demo_query ''c.local'' types_A) ''c.local'' None []
     = Some (Caught (OtherException ''no route''),
        (demo_query ''c.local'' types_A)
          \<lparr>result := (result (demo_query ''c.local'' types_A))
             \<lparr>msg_an := [demo_record ''c.local'' types_CNAME ''h.local'' 60]\<rparr>\<rparr>, []) \<and>
   query_loop demo_env (Suc 0) (demo_query ''h.local'' types_A) ''h.local'' None []
     = Some (Finished,
        (demo_query ''h.local'' types_A)
          \<lparr>result := (result (demo_query ''h.local'' types_A))
             \<lparr>msg_an := [demo_record ''h.local'' types_A ''192.0.2.9'' 60], msg_aa := 1\<rparr>,
           from_cache := True\<rparr>, []) \<and>
   query_loop demo_env (Suc (Suc 0)) (demo_query ''a.b'' types_A) ''a.b'' (Some [''s5'']) []
     = Some (Caught (UnboundLocalError ''e''), demo_query ''a.b'' types_A, []) \<and>
   query_loop demo_env (Suc (Suc 0)) (demo_query ''a.b'' types_A) ''a.b'' (Some [''s3'']) []
     = Some (Finished,
        (demo_query ''a.b'' types_A)
          \<lparr>result := (result (demo_query ''a.b'' types_A))
             \<lparr>msg_an := [demo_record ''a.b'' types_A ''192.0.2.7'' 60]\<rparr>\<rparr>, []) \<and>
   query_loop demo_env (Suc (Suc (Suc (Suc (Suc 0))))) (demo_query ''w.ex'' types_A) ''w.ex''
       (Some [''s3'']) []
     = Some (Finished,
           (demo_query ''w.ex'' types_A)
             \<lparr>result := (result (demo_query ''w.ex'' types_A))
                \<lparr>msg_an := [demo_record ''w.ex'' types_CNAME ''ex.net'' 60,
                             demo_record ''ex.net'' types_A ''192.0.2.7'' 60]\<rparr>\<rparr>,
           [''s1'', ''s2'']) \<and>
   query_loop demo_env (Suc (Suc (Suc (Suc 0))) + 3) (demo_query ''a.b'' types_A) ''a.b'' None []
     = Some (Finished,
        (demo_query ''a.b'' types_A)
          \<lparr>result := (result (demo_query ''a.b'' types_A))
             \<lparr>msg_an := [demo_record ''a.b'' types_A ''192.0.2.7'' 60]\<rparr>\<rparr>, [''s1'', ''s2'']) \<and>
   query demo_env (Suc (Suc (Suc (Suc 0)))) (demo_query ''a.b'' types_A) []
     = Some (Inr (),
             (demo_query ''a.b'' types_A)
               \<lparr>result := (result (demo_query ''a.b'' types_A))
                  \<lparr>msg_an := [demo_record ''a.b'' types_A ''192.0.2.7'' 60]\<rparr>,
                future := Result ((result (demo_query ''a.b'' types_A))
                  \<lparr>msg_an := [demo_record ''a.b'' types_A ''192.0.2.7'' 60]\<rparr>, False)\<rparr>,
             [''s1'', ''s2'']) \<and>
   query demo_env (Suc (Suc (Suc (Suc 0)))) (demo_query ''ex.org'' types_A) []
     = Some (Inr (),
             (demo_query ''ex.org'' types_A)\<lparr>future := Exception (UnboundLocalError ''e'')\<rparr>,
             [''s1'', ''s2'']) \<and>
   future (demo_query ''a.b'' types_A) = Pending \<and>
   \<not> future_cancelled demo_env_task_cancelled [] \<and>
   query demo_env_task_cancelled (Suc (Suc 0)) (demo_query ''a.b'' types_A) []
     = Some (Inl CancelledError, demo_query ''a.b'' types_A, []) \<and>
   \<not> is_Exception CancelledError"
proof -
  note A = query_settles_future [THEN conjunct1, rule_format]
  note B = query_settles_future [THEN conjunct2, THEN conjunct1, rule_format]
  note C = query_settles_future [THEN conjunct2, THEN conjunct2, THEN conjunct1, rule_format]
  note D = query_settles_future [THEN conjunct2, THEN conjunct2, THEN conjunct2, THEN conjunct1,
             rule_format]
  note E = query_settles_future [THEN conjunct2, THEN conjunct2, THEN conjunct2, THEN conjunct2,
             THEN conjunct1, rule_format]
  note G = query_settles_future [THEN conjunct2, THEN conjunct2, THEN conjunct2, THEN conjunct2,
             THEN conjunct2, THEN conjunct1, rule_format]
  note H = query_settles_future [THEN conjunct2, THEN conjunct2, THEN conjunct2, THEN conjunct2,
             THEN conjunct2, THEN conjunct2, THEN conjunct1, rule_format]
  note I = query_settles_future [THEN conjunct2, THEN conjunct2, THEN conjunct2, THEN conjunct2,
             THEN conjunct2, THEN conjunct2, THEN conjunct2, rule_format]
  let ?qa = "demo_query ''a.b'' types_A"
  let ?qa1 = "?qa\<lparr>result := (result ?qa)\<lparr>msg_an := [demo_record ''a.b'' types_A ''192.0.2.7'' 60]\<rparr>\<rparr>"
  let ?qe = "demo_query ''ex.org'' types_A"
  let ?qw = "demo_query ''w.ex'' types_A"
  let ?qw1 = "?qw\<lparr>result := (result ?qw)\<lparr>msg_an := [demo_record ''w.ex'' types_CNAME ''ex.net'' 60]\<rparr>\<rparr>"
  have nf: "\<not> future_cancelled demo_env_cname_fails []"
    and nt: "\<not> future_cancelled demo_env_task_cancelled []"
    by (simp_all add: demo_env_cname_fails_def demo_env_task_cancelled_def demo_env_def)
  note nd = demo_not_cancelled
  have ex: "is_Exception (OtherException ''no route'')" "is_Exception (UnboundLocalError ''e'')"
    "\<not> is_Exception CancelledError"
    by (simp_all add: is_Exception_def)
  have pend: "future ?qa = Pending" "future ?qe = Pending"
    and fq: "fqdn ?qa = ''a.b''" "fqdn ?qe = ''ex.org''"
    and r1: "from_cache ?qa1 = False"
            "result ?qa1 = (result ?qa)\<lparr>msg_an := [demo_record ''a.b'' types_A ''192.0.2.7'' 60]\<rparr>"
    by (simp_all add: demo_query_def)
  from A [OF conjI [OF nf demo_cname_cache_raises], where n = 0 and nss = None]
  have a: "query_loop demo_env_cname_fails (Suc 0) (demo_query ''c.local'' types_A) ''c.local'' None []
     = Some (Caught (OtherException ''no route''),
        (demo_query ''c.local'' types_A)
          \<lparr>result := (result (demo_query ''c.local'' types_A))
             \<lparr>msg_an := [demo_record ''c.local'' types_CNAME ''h.local'' 60]\<rparr>\<rparr>, [])"
    by (simp only: ex if_True)
  note b = B [OF conjI [OF nd demo_cache_hit], where n = 0 and nss = None]
  have hc: "\<not> future_cancelled demo_env [] \<and> query_cache demo_env ?qa ''a.b'' [] = (Inr False, ?qa, []) \<and>
            \<not> future_cancelled demo_env [] \<and>
            query_remote demo_env (Suc 0) (?qa\<lparr>from_cache := False\<rparr>) ''a.b'' (Some [''s5'']) []
              = Some (Inl (UnboundLocalError ''e''), ?qa, [])"
    by (simp only: nd demo_query_cache_miss demo_query_from_cache demo_direct_error simp_thms)
  from C [OF hc] have c: "query_loop demo_env (Suc (Suc 0)) ?qa ''a.b'' (Some [''s5'']) []
     = Some (Caught (UnboundLocalError ''e''), ?qa, [])"
    by (simp only: ex if_True)
  have hd: "\<not> future_cancelled demo_env [] \<and> query_cache demo_env ?qa ''a.b'' [] = (Inr False, ?qa, []) \<and>
            \<not> future_cancelled demo_env [] \<and>
            query_remote demo_env (Suc 0) (?qa\<lparr>from_cache := False\<rparr>) ''a.b'' (Some [''s3'']) []
              = Some (Inr None, ?qa1, [])"
    by (simp only: nd demo_query_cache_miss demo_query_from_cache demo_direct_answer simp_thms)
  note d = D [OF hd]
  have he: "\<not> future_cancelled demo_env [] \<and> query_cache demo_env ?qw ''w.ex'' [] = (Inr False, ?qw, []) \<and>
            \<not> future_cancelled demo_env [] \<and>
            query_remote demo_env (Suc (Suc (Suc (Suc 0)))) (?qw\<lparr>from_cache := False\<rparr>) ''w.ex''
                (Some [''s3'']) []
              = Some (Inr (Some (''ex.net'', None)), ?qw1, [])"
    by (simp only: nd demo_cname_cache_miss demo_query_from_cache demo_cname_hop simp_thms)
  note e = E [OF he, unfolded demo_cname_target_loop]
  note g = G [OF demo_query_loop_answer, where k = 3]
  have hh1: "future ?qa = Pending \<and>
             query_loop demo_env (Suc (Suc (Suc (Suc 0)))) ?qa (fqdn ?qa) None []
               = Some (Finished, ?qa1, [''s1'', ''s2'']) \<and>
             \<not> future_cancelled demo_env [''s1'', ''s2'']"
    by (simp only: pend fq demo_query_loop_answer nd simp_thms)
  from H [OF hh1] have h1: "query demo_env (Suc (Suc (Suc (Suc 0)))) ?qa []
     = Some (Inr (), ?qa1\<lparr>future := Result (result ?qa1, from_cache ?qa1)\<rparr>, [''s1'', ''s2''])"
    by (simp only: loop_end.case)
  have hh2: "future ?qe = Pending \<and>
             query_loop demo_env (Suc (Suc (Suc (Suc 0)))) ?qe (fqdn ?qe) None []
               = Some (Caught (UnboundLocalError ''e''), ?qe, [''s1'', ''s2'']) \<and>
             \<not> future_cancelled demo_env [''s1'', ''s2'']"
    by (simp only: pend fq demo_referral_loop nd simp_thms)
  from H [OF hh2] have h2: "query demo_env (Suc (Suc (Suc (Suc 0)))) ?qe []
     = Some (Inr (), ?qe\<lparr>future := Exception (UnboundLocalError ''e'')\<rparr>, [''s1'', ''s2''])"
    by (simp only: loop_end.case)
  have hh3: "future ?qa = Pending \<and>
             query_loop demo_env_task_cancelled (Suc (Suc 0)) ?qa (fqdn ?qa) None []
               = Some (Uncaught CancelledError, ?qa, []) \<and>
             \<not> future_cancelled demo_env_task_cancelled []"
    by (simp only: pend fq demo_task_cancelled_loop nt simp_thms)
  from H [OF hh3] have h3: "query demo_env_task_cancelled (Suc (Suc 0)) ?qa []
     = Some (Inl CancelledError, ?qa, [])"
    by (simp only: loop_end.case)
  from I [OF conjI [OF pend(1) h3]] have i: "\<not> is_Exception CancelledError" by simp
  from h1 have h1': "query demo_env (Suc (Suc (Suc (Suc 0)))) ?qa []
     = Some (Inr (), ?qa\<lparr>result := (result ?qa)\<lparr>msg_an := [demo_record ''a.b'' types_A ''192.0.2.7'' 60]\<rparr>,
                future := Result ((result ?qa)\<lparr>msg_an := [demo_record ''a.b'' types_A ''192.0.2.7'' 60]\<rparr>, False)\<rparr>,
             [''s1'', ''s2''])"
    by (simp only: r1)
  from nf demo_cname_cache_raises a b c d e g h1' h2 pend(1) nt h3 i show ?thesis
    by (intro conjI) assumption+
qed

text \<open>
  C5 as stated fails in two ways for a future that is not cancelled. When the task
  that runs \<open>query\<close> is cancelled while it awaits the transport, the \<open>await\<close> raises
  \<open>asyncio.CancelledError\<close>, which \<open>except Exception\<close> does not catch: it reaches the
  caller and the future stays pending. And when the future is already done, the
  loop ends normally and \<open>set_result\<close> raises \<open>InvalidStateError\<close> to the caller.
\<close>

theorem query_propagates_counterexample:
  "future (demo_query ''a.b'' types_A) = Pending \<and>
   \<not> future_cancelled demo_env_task_cancelled [] \<and>
   query demo_env_task_cancelled (Suc (Suc 0)) (demo_query ''a.b'' types_A) []
     = Some (Inl CancelledError, demo_query ''a.b'' types_A, []) \<and>
   \<not> future_cancelled demo_env [] \<and>
   query demo_env (Suc 0) ((demo_query ''h.local'' types_A)\<lparr>future := Exception TimeoutError\<rparr>) []
     = Some (Inl InvalidStateError,
             (demo_query ''h.local'' types_A)
               \<lparr>from_cache := True,
                result := (result (demo_query ''h.local'' types_A))
                  \<lparr>msg_an := [demo_record ''h.local'' types_A ''192.0.2.9'' 60], msg_aa := 1\<rparr>,
                future := Exception TimeoutError\<rparr>, [])"
proof -
  have p: "future (demo_query ''a.b'' types_A) = Pending"
    and f: "fqdn (demo_query ''a.b'' types_A) = ''a.b''" by (simp_all add: demo_query_def)
  have nt: "\<not> future_cancelled demo_env_task_cancelled []"
    by (simp add: demo_env_task_cancelled_def demo_env_def)
  have t: "query demo_env_task_cancelled (Suc (Suc 0)) (demo_query ''a.b'' types_A) []
     = Some (Inl CancelledError, demo_query ''a.b'' types_A, [])"
    unfolding query_def by (simp only: f demo_task_cancelled_loop option.case prod.case loop_end.case)
  have d: "query demo_env (Suc 0) ((demo_query ''h.local'' types_A)\<lparr>future := Exception TimeoutError\<rparr>) []
     = Some (Inl InvalidStateError,
             (demo_query ''h.local'' types_A)
               \<lparr>from_cache := True,
                result := (result (demo_query ''h.local'' types_A))
                  \<lparr>msg_an := [demo_record ''h.local'' types_A ''192.0.2.9'' 60], msg_aa := 1\<rparr>,
                future := Exception TimeoutError\<rparr>, [])"
    by (simp add: query_def settle_def cache_defs)
  from p nt t demo_not_cancelled [of "[]"] d show ?thesis by (intro conjI) assumption+
qed

text \<open>
  C2. The claim is that with a cancelled future the loop stops and \<open>query\<close> ends
  cleanly. The loop has no exit for that case: \<open>query\<close> started on a cancelled future
  is still running after any number of iterations (it issues no query and does not
  settle the future, but it never returns).
\<close>

theorem query_cancelled_never_returns:
  "future_cancelled env w \<Longrightarrow> query env fuel q w = None"
  by (simp add: query_def query_loop_cancelled)

text \<open>A thousand iterations on the cancelled future of the concrete environment.\<close>

theorem query_cancelled_never_returns_witness:
  "future_cancelled demo_env_cancelled [] \<and>
   query demo_env_cancelled 1000 (demo_query ''a.b'' types_A) [] = None"
proof -
  have c: "future_cancelled demo_env_cancelled []"
    by (simp add: demo_env_cancelled_def)
  from query_cancelled_never_returns [OF c] c show ?thesis by simp
qed

section \<open>Deduplication in \<open>BaseResolver.query\<close>\<close>

text \<open>The invariant, its parts, and its preservation by every step.\<close>

lemma ledger_invI:
  assumes "\<And>key t. request_cache s key = Some t \<Longrightarrow>
             t < length (tasks s) \<and> task_key (tasks s ! t) = key \<and> \<not> popped (tasks s ! t)"
    and "\<And>t. t < length (tasks s) \<Longrightarrow> \<not> popped (tasks s ! t) \<Longrightarrow>
             request_cache s (task_key (tasks s ! t)) = Some t"
    and "\<And>t. t < length (tasks s) \<Longrightarrow> popped (tasks s ! t) \<Longrightarrow> task_outcome (tasks s ! t) \<noteq> None"
    and "\<And>c t outcome. (c, t, outcome) \<in> set (returned s) \<Longrightarrow>
             t < length (tasks s) \<and> task_outcome (tasks s ! t) = Some outcome"
    and "\<And>c key t. (c, key, t) \<in> set (calls s) \<Longrightarrow>
             t < length (tasks s) \<and> task_key (tasks s ! t) = key"
  shows "ledger_inv s"
  unfolding ledger_inv_def using assms by (intro conjI) blast+

lemma ledger_inv_cache:
  "ledger_inv s \<Longrightarrow> request_cache s key = Some t \<Longrightarrow>
   t < length (tasks s) \<and> task_key (tasks s ! t) = key \<and> \<not> popped (tasks s ! t)"
  unfolding ledger_inv_def by blast

lemma ledger_inv_unpopped:
  "ledger_inv s \<Longrightarrow> t < length (tasks s) \<Longrightarrow> \<not> popped (tasks s ! t) \<Longrightarrow>
   request_cache s (task_key (tasks s ! t)) = Some t"
  unfolding ledger_inv_def by blast

lemma ledger_inv_popped:
  "ledger_inv s \<Longrightarrow> t < length (tasks s) \<Longrightarrow> popped (tasks s ! t) \<Longrightarrow>
   task_outcome (tasks s ! t) \<noteq> None"
  unfolding ledger_inv_def by blast

lemma ledger_inv_returned:
  "ledger_inv s \<Longrightarrow> (c, t, outcome) \<in> set (returned s) \<Longrightarrow>
   t < length (tasks s) \<and> task_outcome (tasks s ! t) = Some outcome"
  unfolding ledger_inv_def by blast

lemma ledger_inv_calls:
  "ledger_inv s \<Longrightarrow> (c, key, t) \<in> set (calls s) \<Longrightarrow>
   t < length (tasks s) \<and> task_key (tasks s ! t) = key"
  unfolding ledger_inv_def by blast

lemma ledger_inv_init: "ledger_inv BaseResolver_init"
  by (simp add: ledger_inv_def BaseResolver_init_def)


text \<open>What each piece of code changes in the state.\<close>

lemma await_task_fields:
  "length (tasks (await_task c t s)) = length (tasks s)"
  "task_key (tasks (await_task c t s) ! i) = task_key (tasks s ! i)"
  "popped (tasks (await_task c t s) ! i) = popped (tasks s ! i)"
  "task_outcome (tasks (await_task c t s) ! i) = task_outcome (tasks s ! i)"
  "request_cache (await_task c t s) = request_cache s"
  "calls (await_task c t s) = calls s"
  by (simp_all add: await_task_def nth_list_update split: option.splits)

lemma await_task_returned:
  "returned (await_task c t s) =
     (if t < length (tasks s) then
        (case task_outcome (tasks s ! t) of None \<Rightarrow> returned s
                                        | Some outcome \<Rightarrow> returned s @ [(c, t, outcome)])
      else returned s)"
  by (simp add: await_task_def split: option.splits)

lemma query_call_fresh:
  assumes "request_cache s key = None"
  shows "length (tasks (query_call c key s)) = Suc (length (tasks s))"
    and "request_cache (query_call c key s) = (request_cache s)(key \<mapsto> length (tasks s))"
    and "calls (query_call c key s) = calls s @ [(c, key, length (tasks s))]"
    and "returned (query_call c key s) = returned s"
    and "i < length (tasks s) \<Longrightarrow> task_key (tasks (query_call c key s) ! i) = task_key (tasks s ! i)"
    and "i < length (tasks s) \<Longrightarrow> popped (tasks (query_call c key s) ! i) = popped (tasks s ! i)"
    and "i < length (tasks s) \<Longrightarrow>
           task_outcome (tasks (query_call c key s) ! i) = task_outcome (tasks s ! i)"
    and "task_key (tasks (query_call c key s) ! length (tasks s)) = key"
    and "\<not> popped (tasks (query_call c key s) ! length (tasks s))"
    and "task_outcome (tasks (query_call c key s) ! length (tasks s)) = None"
  using assms
  by (simp_all add: query_call_def Let_def await_task_fields await_task_returned nth_append)

lemma query_call_joined:
  assumes "request_cache s key = Some t"
  shows "length (tasks (query_call c key s)) = length (tasks s)"
    and "request_cache (query_call c key s) = request_cache s"
    and "calls (query_call c key s) = calls s @ [(c, key, t)]"
    and "returned (query_call c key s) =
           (if t < length (tasks s) then
              (case task_outcome (tasks s ! t) of None \<Rightarrow> returned s
                                              | Some outcome \<Rightarrow> returned s @ [(c, t, outcome)])
            else returned s)"
    and "task_key (tasks (query_call c key s) ! i) = task_key (tasks s ! i)"
    and "popped (tasks (query_call c key s) ! i) = popped (tasks s ! i)"
    and "task_outcome (tasks (query_call c key s) ! i) = task_outcome (tasks s ! i)"
  using assms
  by (simp_all add: query_call_def await_task_fields await_task_returned split: option.splits)

lemma settle_task_fields:
  "length (tasks (settle_task t outcome s)) = length (tasks s)"
  "task_key (tasks (settle_task t outcome s) ! i) = task_key (tasks s ! i)"
  "popped (tasks (settle_task t outcome s) ! i) = popped (tasks s ! i)"
  "task_outcome (tasks (settle_task t outcome s) ! i) =
     (if i = t \<and> t < length (tasks s) \<and> task_outcome (tasks s ! t) = None
      then Some outcome else task_outcome (tasks s ! i))"
  "request_cache (settle_task t outcome s) = request_cache s"
  "calls (settle_task t outcome s) = calls s"
  "returned (settle_task t outcome s) = returned s"
  by (simp_all add: settle_task_def nth_list_update)


lemma run_callback_fields:
  "length (tasks (run_callback t s)) = length (tasks s)"
  "task_key (tasks (run_callback t s) ! i) = task_key (tasks s ! i)"
  "task_outcome (tasks (run_callback t s) ! i) = task_outcome (tasks s ! i)"
  "calls (run_callback t s) = calls s"
  by (simp_all add: run_callback_def nth_list_update split: option.splits list.splits)

lemma run_callback_pop:
  assumes "t < length (tasks s)" and "task_outcome (tasks s ! t) = Some outcome"
    and "\<not> popped (tasks s ! t)"
  shows "request_cache (run_callback t s) = (request_cache s)(task_key (tasks s ! t) := None)"
    and "popped (tasks (run_callback t s) ! i) = (i = t \<or> popped (tasks s ! i))"
    and "returned (run_callback t s) = returned s"
  using assms by (simp_all add: run_callback_def nth_list_update)

lemma run_callback_wake:
  assumes "t < length (tasks s)" and "task_outcome (tasks s ! t) = Some outcome"
    and "popped (tasks s ! t)"
  shows "request_cache (run_callback t s) = request_cache s"
    and "popped (tasks (run_callback t s) ! i) = popped (tasks s ! i)"
    and "returned (run_callback t s) =
           (case waiters (tasks s ! t) of [] \<Rightarrow> returned s
                                        | c # cs \<Rightarrow> returned s @ [(c, t, outcome)])"
  using assms by (simp_all add: run_callback_def nth_list_update split: list.splits)

lemma run_callback_idle:
  assumes "\<not> t < length (tasks s) \<or> task_outcome (tasks s ! t) = None"
  shows "run_callback t s = s"
  using assms by (auto simp: run_callback_def)


lemma ledger_inv_query_call:
  assumes inv: "ledger_inv s"
  shows "ledger_inv (query_call c key s)"
proof (cases "request_cache s key")
  case None
  note f = query_call_fresh [OF None, where c = c]
  let ?n = "length (tasks s)"
  show ?thesis
  proof (rule ledger_invI)
    fix k t assume a: "request_cache (query_call c key s) k = Some t"
    show "t < length (tasks (query_call c key s)) \<and> task_key (tasks (query_call c key s) ! t) = k \<and>
          \<not> popped (tasks (query_call c key s) ! t)"
    proof (cases "k = key")
      case True
      with a have "t = ?n" by (simp add: f(2))
      with True show ?thesis by (auto simp: f)
    next
      case False
      with a have "request_cache s k = Some t" by (simp add: f(2))
      from ledger_inv_cache [OF inv this] show ?thesis by (auto simp: f)
    qed
  next
    fix t assume a: "t < length (tasks (query_call c key s))"
      and b: "\<not> popped (tasks (query_call c key s) ! t)"
    show "request_cache (query_call c key s) (task_key (tasks (query_call c key s) ! t)) = Some t"
    proof (cases "t = ?n")
      case True
      then show ?thesis by (auto simp: f)
    next
      case False
      with a have lt: "t < ?n" by (simp add: f(1))
      with b have "\<not> popped (tasks s ! t)" by (auto simp: f)
      from ledger_inv_unpopped [OF inv lt this]
      have r: "request_cache s (task_key (tasks s ! t)) = Some t" .
      with None have "task_key (tasks s ! t) \<noteq> key" by auto
      with r lt show ?thesis by (auto simp: f)
    qed
  next
    fix t assume a: "t < length (tasks (query_call c key s))"
      and b: "popped (tasks (query_call c key s) ! t)"
    have "t \<noteq> ?n" using b f(9) by auto
    with a have lt: "t < ?n" by (simp add: f(1))
    with b have "popped (tasks s ! t)" by (auto simp: f)
    from ledger_inv_popped [OF inv lt this] lt
    show "task_outcome (tasks (query_call c key s) ! t) \<noteq> None" by (auto simp: f)
  next
    fix c' t outcome assume "(c', t, outcome) \<in> set (returned (query_call c key s))"
    then have "(c', t, outcome) \<in> set (returned s)" by (simp add: f(4))
    from ledger_inv_returned [OF inv this]
    show "t < length (tasks (query_call c key s)) \<and>
          task_outcome (tasks (query_call c key s) ! t) = Some outcome"
      by (auto simp: f)
  next
    fix c' k t assume "(c', k, t) \<in> set (calls (query_call c key s))"
    then have "(c', k, t) \<in> set (calls s) \<or> (k = key \<and> t = ?n)" by (auto simp: f(3))
    then show "t < length (tasks (query_call c key s)) \<and> task_key (tasks (query_call c key s) ! t) = k"
    proof
      assume "(c', k, t) \<in> set (calls s)"
      from ledger_inv_calls [OF inv this] show ?thesis by (auto simp: f)
    next
      assume "k = key \<and> t = ?n"
      then show ?thesis by (auto simp: f)
    qed
  qed
next
  case (Some t0)
  note j = query_call_joined [OF Some, where c = c]
  from ledger_inv_cache [OF inv Some]
  have t0: "t0 < length (tasks s)" "task_key (tasks s ! t0) = key" by simp_all
  show ?thesis
  proof (rule ledger_invI)
    fix k t assume "request_cache (query_call c key s) k = Some t"
    then have "request_cache s k = Some t" by (simp add: j(2))
    from ledger_inv_cache [OF inv this]
    show "t < length (tasks (query_call c key s)) \<and> task_key (tasks (query_call c key s) ! t) = k \<and>
          \<not> popped (tasks (query_call c key s) ! t)"
      by (simp add: j)
  next
    fix t assume "t < length (tasks (query_call c key s))"
      and "\<not> popped (tasks (query_call c key s) ! t)"
    then have "t < length (tasks s)" "\<not> popped (tasks s ! t)" by (simp_all add: j)
    from ledger_inv_unpopped [OF inv this]
    show "request_cache (query_call c key s) (task_key (tasks (query_call c key s) ! t)) = Some t"
      by (simp add: j)
  next
    fix t assume "t < length (tasks (query_call c key s))"
      and "popped (tasks (query_call c key s) ! t)"
    then have "t < length (tasks s)" "popped (tasks s ! t)" by (simp_all add: j)
    from ledger_inv_popped [OF inv this]
    show "task_outcome (tasks (query_call c key s) ! t) \<noteq> None" by (simp add: j)
  next
    fix c' t outcome assume a: "(c', t, outcome) \<in> set (returned (query_call c key s))"
    have "(c', t, outcome) \<in> set (returned s) \<or> (t = t0 \<and> task_outcome (tasks s ! t0) = Some outcome)"
      using a t0(1) by (auto simp: j(4) split: option.splits)
    then show "t < length (tasks (query_call c key s)) \<and>
          task_outcome (tasks (query_call c key s) ! t) = Some outcome"
    proof
      assume "(c', t, outcome) \<in> set (returned s)"
      from ledger_inv_returned [OF inv this] show ?thesis by (simp add: j)
    next
      assume "t = t0 \<and> task_outcome (tasks s ! t0) = Some outcome"
      with t0 show ?thesis by (simp add: j)
    qed
  next
    fix c' k t assume "(c', k, t) \<in> set (calls (query_call c key s))"
    then have "(c', k, t) \<in> set (calls s) \<or> (k = key \<and> t = t0)" by (auto simp: j(3))
    then show "t < length (tasks (query_call c key s)) \<and> task_key (tasks (query_call c key s) ! t) = k"
    proof
      assume "(c', k, t) \<in> set (calls s)"
      from ledger_inv_calls [OF inv this] show ?thesis by (simp add: j)
    next
      assume "k = key \<and> t = t0"
      with t0 show ?thesis by (simp add: j)
    qed
  qed
qed


lemma ledger_inv_settle_task:
  assumes inv: "ledger_inv s"
  shows "ledger_inv (settle_task t0 outcome0 s)"
proof (rule ledger_invI)
  fix k t assume "request_cache (settle_task t0 outcome0 s) k = Some t"
  then have "request_cache s k = Some t" by (simp add: settle_task_fields)
  from ledger_inv_cache [OF inv this]
  show "t < length (tasks (settle_task t0 outcome0 s)) \<and>
        task_key (tasks (settle_task t0 outcome0 s) ! t) = k \<and>
        \<not> popped (tasks (settle_task t0 outcome0 s) ! t)"
    by (simp add: settle_task_fields)
next
  fix t assume "t < length (tasks (settle_task t0 outcome0 s))"
    and "\<not> popped (tasks (settle_task t0 outcome0 s) ! t)"
  then have "t < length (tasks s)" "\<not> popped (tasks s ! t)" by (simp_all add: settle_task_fields)
  from ledger_inv_unpopped [OF inv this]
  show "request_cache (settle_task t0 outcome0 s)
          (task_key (tasks (settle_task t0 outcome0 s) ! t)) = Some t"
    by (simp add: settle_task_fields)
next
  fix t assume "t < length (tasks (settle_task t0 outcome0 s))"
    and "popped (tasks (settle_task t0 outcome0 s) ! t)"
  then have "t < length (tasks s)" "popped (tasks s ! t)" by (simp_all add: settle_task_fields)
  from ledger_inv_popped [OF inv this]
  show "task_outcome (tasks (settle_task t0 outcome0 s) ! t) \<noteq> None"
    by (simp add: settle_task_fields)
next
  fix c t outcome assume "(c, t, outcome) \<in> set (returned (settle_task t0 outcome0 s))"
  then have "(c, t, outcome) \<in> set (returned s)" by (simp add: settle_task_fields)
  from ledger_inv_returned [OF inv this]
  show "t < length (tasks (settle_task t0 outcome0 s)) \<and>
        task_outcome (tasks (settle_task t0 outcome0 s) ! t) = Some outcome"
    by (auto simp: settle_task_fields)
next
  fix c k t assume "(c, k, t) \<in> set (calls (settle_task t0 outcome0 s))"
  then have "(c, k, t) \<in> set (calls s)" by (simp add: settle_task_fields)
  from ledger_inv_calls [OF inv this]
  show "t < length (tasks (settle_task t0 outcome0 s)) \<and>
        task_key (tasks (settle_task t0 outcome0 s) ! t) = k"
    by (simp add: settle_task_fields)
qed

lemma ledger_inv_run_callback:
  assumes inv: "ledger_inv s"
  shows "ledger_inv (run_callback t0 s)"
proof (cases "t0 < length (tasks s) \<and> task_outcome (tasks s ! t0) \<noteq> None")
  case False
  then have "run_callback t0 s = s" by (intro run_callback_idle) auto
  with inv show ?thesis by simp
next
  case True
  then obtain outcome0 where lt: "t0 < length (tasks s)"
    and oc: "task_outcome (tasks s ! t0) = Some outcome0" by auto
  note g = run_callback_fields [where t = t0 and s = s]
  show ?thesis
  proof (cases "popped (tasks s ! t0)")
    case np: False
    note p = run_callback_pop [OF lt oc np]
    from ledger_inv_unpopped [OF inv lt np]
    have c0: "request_cache s (task_key (tasks s ! t0)) = Some t0" .
    show ?thesis
    proof (rule ledger_invI)
      fix k t assume a: "request_cache (run_callback t0 s) k = Some t"
      then have k: "k \<noteq> task_key (tasks s ! t0)" and r: "request_cache s k = Some t"
        by (auto simp: p(1) split: if_splits)
      from ledger_inv_cache [OF inv r] have
        t: "t < length (tasks s)" "task_key (tasks s ! t) = k" "\<not> popped (tasks s ! t)" by simp_all
      with k have "t \<noteq> t0" by auto
      with t show "t < length (tasks (run_callback t0 s)) \<and>
            task_key (tasks (run_callback t0 s) ! t) = k \<and>
            \<not> popped (tasks (run_callback t0 s) ! t)"
        by (simp add: g p)
    next
      fix t assume a: "t < length (tasks (run_callback t0 s))"
        and b: "\<not> popped (tasks (run_callback t0 s) ! t)"
      then have t: "t < length (tasks s)" "t \<noteq> t0" "\<not> popped (tasks s ! t)"
        by (simp_all add: g p)
      from ledger_inv_unpopped [OF inv t(1) t(3)]
      have r: "request_cache s (task_key (tasks s ! t)) = Some t" .
      have "task_key (tasks s ! t) \<noteq> task_key (tasks s ! t0)"
      proof
        assume "task_key (tasks s ! t) = task_key (tasks s ! t0)"
        with r c0 t(2) show False by simp
      qed
      with r show "request_cache (run_callback t0 s)
                     (task_key (tasks (run_callback t0 s) ! t)) = Some t"
        by (simp add: g p)
    next
      fix t assume a: "t < length (tasks (run_callback t0 s))"
        and b: "popped (tasks (run_callback t0 s) ! t)"
      show "task_outcome (tasks (run_callback t0 s) ! t) \<noteq> None"
      proof (cases "t = t0")
        case True
        with oc show ?thesis by (simp add: g)
      next
        case False
        with a b have "t < length (tasks s)" "popped (tasks s ! t)" by (simp_all add: g p)
        from ledger_inv_popped [OF inv this] show ?thesis by (simp add: g)
      qed
    next
      fix c t outcome assume "(c, t, outcome) \<in> set (returned (run_callback t0 s))"
      then have "(c, t, outcome) \<in> set (returned s)" by (simp add: p)
      from ledger_inv_returned [OF inv this]
      show "t < length (tasks (run_callback t0 s)) \<and>
            task_outcome (tasks (run_callback t0 s) ! t) = Some outcome"
        by (simp add: g)
    next
      fix c k t assume "(c, k, t) \<in> set (calls (run_callback t0 s))"
      then have "(c, k, t) \<in> set (calls s)" by (simp add: g)
      from ledger_inv_calls [OF inv this]
      show "t < length (tasks (run_callback t0 s)) \<and> task_key (tasks (run_callback t0 s) ! t) = k"
        by (simp add: g)
    qed
  next
    case pp: True
    note w = run_callback_wake [OF lt oc pp]
    show ?thesis
    proof (rule ledger_invI)
      fix k t assume "request_cache (run_callback t0 s) k = Some t"
      then have "request_cache s k = Some t" by (simp add: w)
      from ledger_inv_cache [OF inv this]
      show "t < length (tasks (run_callback t0 s)) \<and>
            task_key (tasks (run_callback t0 s) ! t) = k \<and>
            \<not> popped (tasks (run_callback t0 s) ! t)"
        by (simp add: g w)
    next
      fix t assume "t < length (tasks (run_callback t0 s))"
        and "\<not> popped (tasks (run_callback t0 s) ! t)"
      then have "t < length (tasks s)" "\<not> popped (tasks s ! t)" by (simp_all add: g w)
      from ledger_inv_unpopped [OF inv this]
      show "request_cache (run_callback t0 s)
              (task_key (tasks (run_callback t0 s) ! t)) = Some t"
        by (simp add: g w)
    next
      fix t assume "t < length (tasks (run_callback t0 s))"
        and "popped (tasks (run_callback t0 s) ! t)"
      then have "t < length (tasks s)" "popped (tasks s ! t)" by (simp_all add: g w)
      from ledger_inv_popped [OF inv this]
      show "task_outcome (tasks (run_callback t0 s) ! t) \<noteq> None" by (simp add: g)
    next
      fix c t outcome assume a: "(c, t, outcome) \<in> set (returned (run_callback t0 s))"
      have "(c, t, outcome) \<in> set (returned s) \<or> (t = t0 \<and> outcome = outcome0)"
        using a by (auto simp: w(3) split: list.splits)
      then show "t < length (tasks (run_callback t0 s)) \<and>
            task_outcome (tasks (run_callback t0 s) ! t) = Some outcome"
      proof
        assume "(c, t, outcome) \<in> set (returned s)"
        from ledger_inv_returned [OF inv this] show ?thesis by (simp add: g)
      next
        assume "t = t0 \<and> outcome = outcome0"
        with lt oc show ?thesis by (simp add: g)
      qed
    next
      fix c k t assume "(c, k, t) \<in> set (calls (run_callback t0 s))"
      then have "(c, k, t) \<in> set (calls s)" by (simp add: g)
      from ledger_inv_calls [OF inv this]
      show "t < length (tasks (run_callback t0 s)) \<and> task_key (tasks (run_callback t0 s) ! t) = k"
        by (simp add: g)
    qed
  qed
qed

lemma ledger_inv_step: "ledger_inv s \<Longrightarrow> ledger_inv (step e s)"
  by (cases e) (simp_all add: ledger_inv_query_call ledger_inv_settle_task ledger_inv_run_callback)

lemma ledger_inv_run: "ledger_inv s \<Longrightarrow> ledger_inv (run es s)"
  unfolding run_def by (induction es arbitrary: s) (simp_all add: ledger_inv_step)

lemma ledger_inv_reachable: "ledger_inv (run es BaseResolver_init)"
  by (rule ledger_inv_run [OF ledger_inv_init])


text \<open>A request that has not ended is the one the dictionary holds for its key.\<close>

lemma in_flight_in_cache:
  assumes "ledger_inv s" and "in_flight s t"
  shows "request_cache s (task_key (tasks s ! t)) = Some t"
proof -
  from assms(2) have lt: "t < length (tasks s)" and oc: "task_outcome (tasks s ! t) = None"
    by (simp_all add: in_flight_def)
  have "\<not> popped (tasks s ! t)"
  proof
    assume "popped (tasks s ! t)"
    from ledger_inv_popped [OF assms(1) lt this] oc show False by simp
  qed
  from ledger_inv_unpopped [OF assms(1) lt this] show ?thesis .
qed

text \<open>
  While the dictionary holds task \<open>t\<close> for a key and the pop callback of \<open>t\<close> does not
  run, no step starts a request for that key, and every call with that key awaits \<open>t\<close>.
\<close>

lemma task_keys_query_call_fresh:
  assumes "request_cache s key = None"
  shows "map task_key (tasks (query_call c key s)) = map task_key (tasks s) @ [key]"
  using query_call_fresh [OF assms, where c = c]
  by (intro nth_equalityI) (auto simp: nth_append less_Suc_eq)

lemma task_keys_query_call_joined:
  assumes "request_cache s key = Some t"
  shows "map task_key (tasks (query_call c key s)) = map task_key (tasks s)"
  using query_call_joined [OF assms, where c = c]
  by (intro nth_equalityI) auto

lemma task_keys_settle_task:
  "map task_key (tasks (settle_task t outcome s)) = map task_key (tasks s)"
  by (intro nth_equalityI) (auto simp: settle_task_fields)

lemma task_keys_run_callback:
  "map task_key (tasks (run_callback t s)) = map task_key (tasks s)"
  by (intro nth_equalityI) (auto simp: run_callback_fields)

lemma requests_for_keys:
  "requests_for key s = length (filter (\<lambda>k. k = key) (map task_key (tasks s)))"
  by (simp add: requests_for_def filter_map comp_def)

lemma dedup_step:
  assumes inv: "ledger_inv s" and c: "request_cache s key = Some t" and e: "e \<noteq> Callback t"
  shows "request_cache (step e s) key = Some t
       \<and> requests_for key (step e s) = requests_for key s
       \<and> (\<forall>x\<in>set (calls (step e s)). fst (snd x) = key \<longrightarrow> x \<in> set (calls s) \<or> snd (snd x) = t)"
proof (cases e)
  case (Call c' k)
  show ?thesis
  proof (cases "request_cache s k")
    case None
    with c have ne: "k \<noteq> key" by auto
    note f = query_call_fresh [OF None, where c = c']
    from ne c show ?thesis
      by (auto simp: Call f(2,3) requests_for_keys task_keys_query_call_fresh [OF None])
  next
    case (Some t')
    note j = query_call_joined [OF Some, where c = c']
    from c Some show ?thesis
      by (auto simp: Call j(2,3) requests_for_keys task_keys_query_call_joined [OF Some])
  qed
next
  case (Settle t' outcome)
  from c show ?thesis
    by (simp add: Settle settle_task_fields requests_for_keys task_keys_settle_task)
next
  case (Callback t')
  with e have ne: "t' \<noteq> t" by simp
  have "request_cache (run_callback t' s) key = Some t"
  proof (cases "t' < length (tasks s) \<and> task_outcome (tasks s ! t') \<noteq> None")
    case False
    then have "run_callback t' s = s" by (intro run_callback_idle) auto
    with c show ?thesis by simp
  next
    case True
    then obtain outcome where lt: "t' < length (tasks s)"
      and oc: "task_outcome (tasks s ! t') = Some outcome" by auto
    show ?thesis
    proof (cases "popped (tasks s ! t')")
      case True
      from run_callback_wake(1) [OF lt oc True] c show ?thesis by simp
    next
      case False
      from ledger_inv_unpopped [OF inv lt False]
      have "request_cache s (task_key (tasks s ! t')) = Some t'" .
      with c ne have "task_key (tasks s ! t') \<noteq> key" by auto
      with run_callback_pop(1) [OF lt oc False] c show ?thesis by simp
    qed
  qed
  then show ?thesis
    by (simp add: Callback run_callback_fields requests_for_keys task_keys_run_callback)
qed

lemma dedup_run:
  assumes "ledger_inv s" and "request_cache s key = Some t" and "Callback t \<notin> set es"
  shows "request_cache (run es s) key = Some t
       \<and> requests_for key (run es s) = requests_for key s
       \<and> (\<forall>x\<in>set (calls (run es s)). fst (snd x) = key \<longrightarrow> x \<in> set (calls s) \<or> snd (snd x) = t)"
  using assms
proof (induction es arbitrary: s)
  case Nil
  then show ?case by (simp add: run_def)
next
  case (Cons e es)
  from Cons.prems(3) have e: "e \<noteq> Callback t" and es: "Callback t \<notin> set es" by auto
  note d = dedup_step [OF Cons.prems(1,2) e]
  from d have c1: "request_cache (step e s) key = Some t" by simp
  note ih = Cons.IH [OF ledger_inv_step [OF Cons.prems(1)] c1 es]
  have r: "run (e # es) s = run es (step e s)" by (simp add: run_def)
  from d ih show ?case unfolding r by auto
qed

text \<open>
  C1. In every state that the resolver reaches from its initial state: two requests
  of the same key that have not ended are the same request, and the dictionary
  holds it; from a call with a key that is not in the dictionary until the pop
  callback of the request it starts, whatever else happens (calls with any key, the
  end of any request, callbacks of other requests), exactly one request with that
  key is started and every call with that key awaits that request; and two callers
  that have received the outcome of the same request have received the same outcome.
\<close>

theorem query_deduplicates:
  assumes "s = run es BaseResolver_init"
  shows "(in_flight s t1 \<and> in_flight s t2 \<and> task_key (tasks s ! t1) = task_key (tasks s ! t2)
            \<longrightarrow> t1 = t2)
       \<and> (in_flight s t \<longrightarrow> request_cache s (task_key (tasks s ! t)) = Some t)
       \<and> (request_cache s key = None \<and> Callback (length (tasks s)) \<notin> set es' \<longrightarrow>
            requests_for key (run es' (query_call c key s)) = Suc (requests_for key s) \<and>
            request_cache (run es' (query_call c key s)) key = Some (length (tasks s)) \<and>
            (\<forall>x\<in>set (calls (run es' (query_call c key s))).
               fst (snd x) = key \<longrightarrow> x \<in> set (calls s) \<or> snd (snd x) = length (tasks s)))
       \<and> ((c1, t, o1) \<in> set (returned s) \<and> (c2, t, o2) \<in> set (returned s) \<longrightarrow> o1 = o2)"
proof -
  have inv: "ledger_inv s" unfolding assms by (rule ledger_inv_reachable)
  have p1: "in_flight s t1 \<and> in_flight s t2 \<and> task_key (tasks s ! t1) = task_key (tasks s ! t2)
            \<longrightarrow> t1 = t2"
  proof
    assume a: "in_flight s t1 \<and> in_flight s t2 \<and> task_key (tasks s ! t1) = task_key (tasks s ! t2)"
    then have f1: "in_flight s t1" and f2: "in_flight s t2"
      and k: "task_key (tasks s ! t1) = task_key (tasks s ! t2)" by blast+
    note c1 = in_flight_in_cache [OF inv f1, unfolded k] and c2 = in_flight_in_cache [OF inv f2]
    from c1 c2 show "t1 = t2" by (metis option.inject)
  qed
  have p2: "in_flight s t \<longrightarrow> request_cache s (task_key (tasks s ! t)) = Some t"
    using in_flight_in_cache [OF inv] by blast
  have p3: "request_cache s key = None \<and> Callback (length (tasks s)) \<notin> set es' \<longrightarrow>
            requests_for key (run es' (query_call c key s)) = Suc (requests_for key s) \<and>
            request_cache (run es' (query_call c key s)) key = Some (length (tasks s)) \<and>
            (\<forall>x\<in>set (calls (run es' (query_call c key s))).
               fst (snd x) = key \<longrightarrow> x \<in> set (calls s) \<or> snd (snd x) = length (tasks s))"
  proof
    assume a: "request_cache s key = None \<and> Callback (length (tasks s)) \<notin> set es'"
    then have n: "request_cache s key = None" and cb: "Callback (length (tasks s)) \<notin> set es'"
      by simp_all
    note f = query_call_fresh [OF n, where c = c]
    have c1: "request_cache (query_call c key s) key = Some (length (tasks s))" by (simp add: f(2))
    have r1: "requests_for key (query_call c key s) = Suc (requests_for key s)"
      by (simp add: requests_for_keys task_keys_query_call_fresh [OF n])
    note d = dedup_run [OF ledger_inv_query_call [OF inv] c1 cb]
    from d r1 show "requests_for key (run es' (query_call c key s)) = Suc (requests_for key s) \<and>
            request_cache (run es' (query_call c key s)) key = Some (length (tasks s)) \<and>
            (\<forall>x\<in>set (calls (run es' (query_call c key s))).
               fst (snd x) = key \<longrightarrow> x \<in> set (calls s) \<or> snd (snd x) = length (tasks s))"
      by (auto simp: f(3))
  qed
  have p4: "(c1, t, o1) \<in> set (returned s) \<and> (c2, t, o2) \<in> set (returned s) \<longrightarrow> o1 = o2"
  proof
    assume "(c1, t, o1) \<in> set (returned s) \<and> (c2, t, o2) \<in> set (returned s)"
    with ledger_inv_returned [OF inv, of c1 t o1] ledger_inv_returned [OF inv, of c2 t o2]
    show "o1 = o2" by simp
  qed
  from p1 p2 p3 p4 show ?thesis by blast
qed

text \<open>The definitions that a run of the resolver unfolds.\<close>

lemmas base_defs = run_def query_call_def await_task_def settle_task_def run_callback_def
  BaseResolver_init_def requests_for_def in_flight_def demo_key_def demo_key2_def demo_outcome_def
  demo_events_shared_def demo_events_late_def Let_def

text \<open>
  Four calls, three of them with the same key, start one request for it; two callers
  that shared a request receive the same outcome.
\<close>

theorem query_deduplicates_witness:
  "request_cache (run [] (BaseResolver_init :: (string \<times> qtype \<times> string, error + string) BaseResolver)) demo_key = None \<and>
   Callback (length (tasks (run [] (BaseResolver_init :: (string \<times> qtype \<times> string, error + string) BaseResolver)))) \<notin>
     set [Call 1 demo_key, Call 2 demo_key2, Settle 0 demo_outcome, Call 3 demo_key] \<and>
   requests_for demo_key
     (run [Call 1 demo_key, Call 2 demo_key2, Settle 0 demo_outcome, Call 3 demo_key]
        (query_call 0 demo_key (run [] (BaseResolver_init :: (string \<times> qtype \<times> string, error + string) BaseResolver)))) = Suc 0 \<and>
   calls (run [Call 1 demo_key, Call 2 demo_key2, Settle 0 demo_outcome, Call 3 demo_key]
            (query_call 0 demo_key (run [] (BaseResolver_init :: (string \<times> qtype \<times> string, error + string) BaseResolver))))
     = [(0, demo_key, 0), (1, demo_key, 0), (2, demo_key2, Suc 0), (3, demo_key, 0)] \<and>
   in_flight (run [Call 0 demo_key, Call 1 demo_key] (BaseResolver_init :: (string \<times> qtype \<times> string, error + string) BaseResolver)) 0 \<and>
   request_cache (run [Call 0 demo_key, Call 1 demo_key] (BaseResolver_init :: (string \<times> qtype \<times> string, error + string) BaseResolver)) demo_key = Some 0 \<and>
   requests_for demo_key (run demo_events_shared BaseResolver_init) = Suc 0 \<and>
   returned (run demo_events_shared BaseResolver_init) = [(0, 0, demo_outcome), (1, 0, demo_outcome)]"
proof -
  let ?i = "BaseResolver_init :: (string \<times> qtype \<times> string, error + string) BaseResolver"
  let ?es' = "[Call 1 demo_key, Call 2 demo_key2, Settle 0 demo_outcome, Call 3 demo_key]"
  let ?s1 = "run [Call 0 demo_key, Call 1 demo_key] ?i"
  let ?s2 = "run demo_events_shared ?i"
  have h0: "request_cache (run [] ?i) demo_key = None"
    "Callback (length (tasks (run [] ?i))) \<notin> set ?es'"
    "requests_for demo_key (run [] ?i) = 0"
    by (simp_all add: base_defs)
  have c: "calls (run ?es' (query_call 0 demo_key (run [] ?i)))
     = [(0, demo_key, 0), (1, demo_key, 0), (2, demo_key2, Suc 0), (3, demo_key, 0)]"
    by (simp add: base_defs)
  have h1: "in_flight ?s1 0" "task_key (tasks ?s1 ! 0) = demo_key"
    by (simp_all add: base_defs)
  have h2: "returned ?s2 = [(0, 0, demo_outcome), (1, 0, demo_outcome)]"
    "requests_for demo_key ?s2 = Suc 0"
    by (simp_all add: base_defs)
  then have m: "(0, 0, demo_outcome) \<in> set (returned ?s2)" "(1, 0, demo_outcome) \<in> set (returned ?s2)"
    by simp_all
  from query_deduplicates [OF refl, where es = "[]" and key = demo_key and es' = ?es' and c = 0
         and ?t1.0 = 0 and ?t2.0 = 0 and t = 0 and ?c1.0 = 0 and ?c2.0 = 0
         and ?o1.0 = demo_outcome and ?o2.0 = demo_outcome] h0
  have a: "requests_for demo_key (run ?es' (query_call 0 demo_key (run [] ?i))) = Suc 0"
    by (simp only:) blast
  from query_deduplicates [OF refl, where es = "[Call 0 demo_key, Call 1 demo_key]" and key = demo_key
         and es' = "[]" and c = 0 and ?t1.0 = 0 and ?t2.0 = 0 and t = 0 and ?c1.0 = 0 and ?c2.0 = 0
         and ?o1.0 = demo_outcome and ?o2.0 = demo_outcome] h1(1)
  have "request_cache ?s1 (task_key (tasks ?s1 ! 0)) = Some 0" by blast
  then have b: "request_cache ?s1 demo_key = Some 0" by (simp only: h1(2))
  from query_deduplicates [OF refl, where es = demo_events_shared and key = demo_key
         and es' = "[]" and c = 0 and ?t1.0 = 0 and ?t2.0 = 0 and t = 0 and ?c1.0 = 0 and ?c2.0 = 1
         and ?o1.0 = demo_outcome and ?o2.0 = demo_outcome] m
  have d: "demo_outcome = demo_outcome" by blast
  from h0 a c h1 b h2 d show ?thesis by blast
qed

text \<open>
  C6 as stated fails for a call that arrives after the request has ended and before
  its pop callback has run: the call of caller 1 returns the outcome at once, the
  dictionary still holds the entry, and the next call with the same key (caller 2)
  starts no new request and is answered from the ended task.
\<close>

theorem query_late_call_counterexample:
  "returned (run demo_events_late BaseResolver_init) = [(1, 0, demo_outcome)] \<and>
   request_cache (run demo_events_late BaseResolver_init) demo_key = Some 0 \<and>
   requests_for demo_key (run demo_events_late BaseResolver_init) = 1 \<and>
   requests_for demo_key (query_call 2 demo_key (run demo_events_late BaseResolver_init)) = 1 \<and>
   returned (query_call 2 demo_key (run demo_events_late BaseResolver_init))
     = [(1, 0, demo_outcome), (2, 0, demo_outcome)]"
  by (simp add: base_defs)

text \<open>
  C6, as the code has it. When the pop callback of an ended request runs, whatever
  the request ended with, the dictionary has no entry for its key and the next call
  with that key starts a new request; and a caller that was suspended on the request
  is woken only after that callback, when the dictionary no longer holds the request.
\<close>

theorem ledger_cleanup:
  assumes "s = run es BaseResolver_init"
  shows "(t < length (tasks s) \<and> task_outcome (tasks s ! t) = Some outcome \<and> \<not> popped (tasks s ! t)
          \<and> key = task_key (tasks s ! t) \<longrightarrow>
            request_cache (run_callback t s) key = None \<and>
            requests_for key (query_call c key (run_callback t s))
              = Suc (requests_for key (run_callback t s)) \<and>
            request_cache (query_call c key (run_callback t s)) key = Some (length (tasks s)) \<and>
            in_flight (query_call c key (run_callback t s)) (length (tasks s)))
       \<and> (returned (run_callback t s) \<noteq> returned s \<longrightarrow>
            popped (tasks s ! t) \<and> request_cache (run_callback t s) (task_key (tasks s ! t)) \<noteq> Some t)"
proof (intro conjI impI)
  assume a: "t < length (tasks s) \<and> task_outcome (tasks s ! t) = Some outcome \<and> \<not> popped (tasks s ! t)
          \<and> key = task_key (tasks s ! t)"
  then have lt: "t < length (tasks s)" and oc: "task_outcome (tasks s ! t) = Some outcome"
    and np: "\<not> popped (tasks s ! t)" and k: "key = task_key (tasks s ! t)" by simp_all
  note p = run_callback_pop [OF lt oc np]
  have n: "request_cache (run_callback t s) key = None" by (simp add: p(1) k)
  note f = query_call_fresh [OF n, where c = c]
  show "request_cache (run_callback t s) key = None" by (rule n)
  show "requests_for key (query_call c key (run_callback t s))
              = Suc (requests_for key (run_callback t s))"
    by (simp add: requests_for_keys task_keys_query_call_fresh [OF n])
  show "request_cache (query_call c key (run_callback t s)) key = Some (length (tasks s))"
    by (simp add: f(2) run_callback_fields)
  show "in_flight (query_call c key (run_callback t s)) (length (tasks s))"
    using f(1,10) by (simp add: in_flight_def run_callback_fields)
next
  have inv: "ledger_inv s" unfolding assms by (rule ledger_inv_reachable)
  assume a: "returned (run_callback t s) \<noteq> returned s"
  then have "run_callback t s \<noteq> s" by auto
  have "t < length (tasks s) \<and> task_outcome (tasks s ! t) \<noteq> None"
  proof (rule ccontr)
    assume "\<not> (t < length (tasks s) \<and> task_outcome (tasks s ! t) \<noteq> None)"
    then have "run_callback t s = s" by (intro run_callback_idle) auto
    with \<open>run_callback t s \<noteq> s\<close> show False by simp
  qed
  then obtain outcome where lt: "t < length (tasks s)"
    and oc: "task_outcome (tasks s ! t) = Some outcome" by auto
  have pp: "popped (tasks s ! t)"
  proof (rule ccontr)
    assume "\<not> popped (tasks s ! t)"
    from run_callback_pop(3) [OF lt oc this] a show False by simp
  qed
  then show "popped (tasks s ! t)" .
  show "request_cache (run_callback t s) (task_key (tasks s ! t)) \<noteq> Some t"
  proof
    assume "request_cache (run_callback t s) (task_key (tasks s ! t)) = Some t"
    then have "request_cache s (task_key (tasks s ! t)) = Some t"
      by (simp add: run_callback_wake(1) [OF lt oc pp])
    from ledger_inv_cache [OF inv this] pp show False by simp
  qed
qed

text \<open>
  Two callers share a request that ends; its first callback removes the key, after
  which a call starts the second request; the next callback wakes caller 0.
\<close>

theorem ledger_cleanup_witness:
  "0 < length (tasks (run [Call 0 demo_key, Call 1 demo_key, Settle 0 demo_outcome] BaseResolver_init)) \<and>
   task_outcome (tasks (run [Call 0 demo_key, Call 1 demo_key, Settle 0 demo_outcome] BaseResolver_init) ! 0)
     = Some demo_outcome \<and>
   \<not> popped (tasks (run [Call 0 demo_key, Call 1 demo_key, Settle 0 demo_outcome] BaseResolver_init) ! 0) \<and>
   demo_key = task_key (tasks (run [Call 0 demo_key, Call 1 demo_key, Settle 0 demo_outcome] BaseResolver_init) ! 0) \<and>
   request_cache (run [Call 0 demo_key, Call 1 demo_key, Settle 0 demo_outcome] BaseResolver_init) demo_key
     = Some 0 \<and>
   request_cache (run_callback 0 (run [Call 0 demo_key, Call 1 demo_key, Settle 0 demo_outcome] BaseResolver_init))
     demo_key = None \<and>
   requests_for demo_key (query_call 2 demo_key
       (run_callback 0 (run [Call 0 demo_key, Call 1 demo_key, Settle 0 demo_outcome] BaseResolver_init)))
     = Suc (requests_for demo_key
       (run_callback 0 (run [Call 0 demo_key, Call 1 demo_key, Settle 0 demo_outcome] BaseResolver_init))) \<and>
   in_flight (query_call 2 demo_key
       (run_callback 0 (run [Call 0 demo_key, Call 1 demo_key, Settle 0 demo_outcome] BaseResolver_init)))
     (Suc 0) \<and>
   returned (run_callback 0 (run [Call 0 demo_key, Call 1 demo_key, Settle 0 demo_outcome, Callback 0] BaseResolver_init))
     = [(0, 0, demo_outcome)] \<and>
   returned (run [Call 0 demo_key, Call 1 demo_key, Settle 0 demo_outcome, Callback 0] BaseResolver_init) = [] \<and>
   popped (tasks (run [Call 0 demo_key, Call 1 demo_key, Settle 0 demo_outcome, Callback 0] BaseResolver_init) ! 0)"
proof -
  let ?es = "[Call 0 demo_key, Call 1 demo_key, Settle 0 demo_outcome]"
  let ?s = "run ?es (BaseResolver_init :: (string \<times> qtype \<times> string, error + string) BaseResolver)"
  let ?es' = "[Call 0 demo_key, Call 1 demo_key, Settle 0 demo_outcome, Callback 0]"
  let ?s' = "run ?es' (BaseResolver_init :: (string \<times> qtype \<times> string, error + string) BaseResolver)"
  have h: "0 < length (tasks ?s)" "task_outcome (tasks ?s ! 0) = Some demo_outcome"
    "\<not> popped (tasks ?s ! 0)" "demo_key = task_key (tasks ?s ! 0)"
    "request_cache ?s demo_key = Some 0" "length (tasks ?s) = Suc 0"
    by (simp_all add: base_defs)
  have r: "returned (run_callback 0 ?s') = [(0, 0, demo_outcome)]" "returned ?s' = []"
    by (simp_all add: base_defs)
  then have ne: "returned (run_callback 0 ?s') \<noteq> returned ?s'" by simp
  from ledger_cleanup [OF refl, of 0 ?es demo_outcome demo_key 2] h
  have a: "request_cache (run_callback 0 ?s) demo_key = None"
    "requests_for demo_key (query_call 2 demo_key (run_callback 0 ?s))
       = Suc (requests_for demo_key (run_callback 0 ?s))"
    "in_flight (query_call 2 demo_key (run_callback 0 ?s)) (Suc 0)"
    by simp_all
  from ledger_cleanup [OF refl, of 0 ?es'] ne
  have b: "popped (tasks ?s' ! 0)" by blast
  from h a r b show ?thesis by blast
qed

end
